theory Spec2Isabelle
  imports Main
begin

section \<open>Time, streams and the persisted state\<close>

text \<open>
  Datetimes are counted in whole seconds since the epoch (UTC), as integers: every
  bookmark the tap writes goes through \<open>strftime(DATETIME_FORMAT)\<close>, which has
  one-second granularity, and every timestamp of a record is a string in that same
  fixed-width format, so that the string comparisons of the source are comparisons of
  these integers. With that reading \<open>utils.strptime_with_tz\<close> and \<open>strftime\<close> are
  the identity, and \<open>datetime.timedelta(seconds=n)\<close> is \<open>n\<close>.
  The one datetime of the source that is not a whole second is \<open>sync_end\<close>
  (\<open>singer.utils.now()\<close> minus a minute): it is kept in microseconds, and
  \<open>parsed\<close> is what \<open>strftime\<close> makes of it.
\<close>

definition usec :: "int \<Rightarrow> int" where
  "usec s = s * 1000000"

definition parsed :: "int \<Rightarrow> int" where
  "parsed us = us div 1000000"

text \<open>The class attributes \<open>name\<close> and \<open>replication_key\<close> of a \<open>Stream\<close>.\<close>

record stream =
  name :: string
  replication_key :: string

text \<open>
  The singer state: \<open>singer.get_bookmark(state, name, key)\<close> reads
  \<open>state["bookmarks"][name][key]\<close> and gives \<open>None\<close> when it is absent;
  \<open>singer.write_bookmark\<close> stores there.
\<close>

type_synonym state = "(string \<times> string) \<rightharpoonup> int"

datatype error =
    BookmarkError          \<comment> \<open>\<open>strptime_with_tz(None)\<close> raises\<close>
  | CapacityExceeded       \<comment> \<open>the \<open>Exception\<close> of \<open>Users.sync\<close>, line 197\<close>
  | ConsistencyViolation   \<comment> \<open>the \<open>AssertionError\<close>s of lines 209 and 359\<close>
  | FetchError             \<comment> \<open>an exception raised by a client call\<close>
  | OverflowError          \<comment> \<open>a \<open>datetime\<close> or \<open>timedelta\<close> out of range\<close>

definition get_bookmark :: "stream \<Rightarrow> state \<Rightarrow> error + int" where
  "get_bookmark s st =
     (case st (name s, replication_key s) of
        None \<Rightarrow> Inl BookmarkError
      | Some b \<Rightarrow> Inr b)"

text \<open>
  \<open>Stream.update_bookmark\<close>. The value is \<open>None\<close> when the source's \<open>value\<close> is
  falsy (\<open>None\<close> or the empty string). The current bookmark is read first, so a
  missing bookmark raises whatever the value is.
\<close>

definition update_bookmark :: "stream \<Rightarrow> state \<Rightarrow> int option \<Rightarrow> error + state" where
  "update_bookmark s st v =
     (case get_bookmark s st of
        Inl e \<Rightarrow> Inl e
      | Inr current_bookmark \<Rightarrow>
          (case v of
             None \<Rightarrow> Inr st
           | Some c \<Rightarrow>
               if c > current_bookmark
               then Inr (st((name s, replication_key s) \<mapsto> c + 1))
               else Inr st))"

text \<open>A sequence of advances on one stream, stopping at the first exception.\<close>

fun advance_all :: "stream \<Rightarrow> state \<Rightarrow> int option list \<Rightarrow> error + state" where
  "advance_all s st [] = Inr st"
| "advance_all s st (v # vs) =
     (case update_bookmark s st v of
        Inl e \<Rightarrow> Inl e
      | Inr st' \<Rightarrow> advance_all s st' vs)"

section \<open>The adaptive-window streams\<close>

text \<open>
  A record of the search endpoints (a user, a satisfaction rating): its id and its
  \<open>updated_at\<close>. A response has the \<open>count\<close> the endpoint reports and the records
  that iterating over it gives.
\<close>

record item =
  item_id :: int
  updated_at :: int

record response =
  count :: int
  records :: "item list"

text \<open>
  The local variables of the window loops, with the state dictionary, the records
  yielded so far, the seconds spent in \<open>time.sleep\<close> and the number of queries sent.
\<close>

record window =
  search_window_size :: int
  start :: int
  end_dt :: int
  num_retries :: nat
  bookmarks :: state
  emitted :: "item list"
  slept :: nat
  queries :: nat

text \<open>
  What a loop body or a loop does: it completes (\<open>Normal\<close>), or an exception leaves
  it (\<open>Raise\<close>), in both cases with the variables as they are at that point.
\<close>

datatype 'a outcome = Normal 'a | Raise error 'a

text \<open>The variables at the point where the loop was left, either way.\<close>

fun final :: "'a outcome \<Rightarrow> 'a" where
  "final (Normal x) = x"
| "final (Raise e x) = x"

definition DEFAULT_SEARCH_WINDOW_SIZE :: int where
  "DEFAULT_SEARCH_WINDOW_SIZE = (60 * 60 * 24) * 30"

text \<open>\<open>int(self.config.get('search_window_size', DEFAULT_SEARCH_WINDOW_SIZE))\<close>\<close>

definition configured_window_size :: "int option \<Rightarrow> int" where
  "configured_window_size cfg =
     (case cfg of None \<Rightarrow> DEFAULT_SEARCH_WINDOW_SIZE | Some n \<Rightarrow> n)"

definition users_stream :: stream where
  "users_stream = \<lparr>name = ''users'', replication_key = ''updated_at''\<rparr>"

definition satisfaction_ratings_stream :: stream where
  "satisfaction_ratings_stream =
     \<lparr>name = ''satisfaction_ratings'', replication_key = ''updated_at''\<rparr>"

text \<open>
  \<open>dt + datetime.timedelta(seconds=n)\<close>. A \<open>datetime\<close> lies between
  \<open>0001-01-01T00:00:00\<close> and \<open>9999-12-31T23:59:59\<close>; a sum outside raises
  \<open>OverflowError\<close>, and so does \<open>timedelta(seconds=n)\<close> itself beyond 999999999 days,
  which from a \<open>datetime\<close> in range always gives a sum outside.
\<close>

definition datetime_min :: int where
  "datetime_min = - 62135596800"

definition datetime_max :: int where
  "datetime_max = 253402300799"

definition plus_seconds :: "int \<Rightarrow> int \<Rightarrow> error + int" where
  "plus_seconds dt n =
     (if datetime_min \<le> dt + n \<and> dt + n \<le> datetime_max then Inr (dt + n)
      else Inl OverflowError)"

text \<open>
  One pass through the body of the \<open>while\<close> loop of \<open>Users.sync\<close> (lines 182 to 225),
  given the response \<open>users\<close> to the query of that pass. \<open>sync_end\<close> is in
  microseconds.
\<close>

definition users_iter :: "int \<Rightarrow> int \<Rightarrow> response \<Rightarrow> window \<Rightarrow> window outcome" where
  "users_iter original_search_window_size sync_end users w =
     (let parsed_start = start w;
          parsed_end = min (end_dt w) (parsed sync_end)
      in
      if count users > 1000 then
        (if search_window_size w > 1 then
           (let size' = search_window_size w div 2 in
            case plus_seconds (start w) size' of
              Inl e \<Rightarrow> Raise e (w\<lparr>search_window_size := size'\<rparr>)
            | Inr end' \<Rightarrow> Normal (w\<lparr>search_window_size := size', end_dt := end'\<rparr>))
         else Raise CapacityExceeded w)
      else if \<not> list_all (\<lambda>user. parsed_start \<le> updated_at user) (records users) then
        (if num_retries w < 60 then
           Normal (w\<lparr>slept := slept w + 30, num_retries := num_retries w + 1\<rparr>)
         else Raise ConsistencyViolation w)
      else
        (let w1 = w\<lparr>num_retries := 0,
                     emitted := emitted w @
                       filter (\<lambda>user. parsed_start \<le> updated_at user \<and> updated_at user \<le> parsed_end)
                         (records users)\<rparr>
         in
         case update_bookmark users_stream (bookmarks w1) (Some parsed_end) of
           Inl e \<Rightarrow> Raise e w1
         | Inr state' \<Rightarrow>
             (let size' = (if search_window_size w \<le> original_search_window_size div 2
                           then search_window_size w * 2 else search_window_size w);
                  w2 = w1\<lparr>bookmarks := state', search_window_size := size'\<rparr>
              in
              case plus_seconds (end_dt w) (- 1) of
                Inl e \<Rightarrow> Raise e w2
              | Inr start' \<Rightarrow>
                  (case plus_seconds start' size' of
                     Inl e \<Rightarrow> Raise e (w2\<lparr>start := start'\<rparr>)
                   | Inr end' \<Rightarrow> Normal (w2\<lparr>start := start', end_dt := end'\<rparr>)))))"

text \<open>
  The \<open>while start < sync_end\<close> loop. The search endpoint is a function of the number
  of the query and of the window asked for (\<open>updated_after\<close>, \<open>updated_before\<close>), so
  that the same window may be answered differently when it is asked again. The loop
  need not end: the first argument bounds the number of passes, and \<open>None\<close> says the
  bound was reached with the loop still running.
\<close>

fun users_loop ::
  "nat \<Rightarrow> (nat \<Rightarrow> int \<Rightarrow> int \<Rightarrow> response) \<Rightarrow> int \<Rightarrow> int \<Rightarrow> window \<Rightarrow> window outcome option" where
  "users_loop 0 search original_search_window_size sync_end w =
     (if usec (start w) < sync_end then None else Some (Normal w))"
| "users_loop (Suc n) search original_search_window_size sync_end w =
     (if usec (start w) < sync_end then
        (case users_iter original_search_window_size sync_end
                (search (queries w) (start w) (min (end_dt w) (parsed sync_end)))
                (w\<lparr>queries := Suc (queries w)\<rparr>) of
           Normal w' \<Rightarrow> users_loop n search original_search_window_size sync_end w'
         | Raise e w' \<Rightarrow> Some (Raise e w'))
      else Some (Normal w))"

text \<open>
  The variables on entering a window loop, once \<open>start\<close> and \<open>end\<close> are computed:
  nothing retried, emitted, slept or asked yet.
\<close>

definition fresh_window :: "int \<Rightarrow> int \<Rightarrow> int \<Rightarrow> state \<Rightarrow> window" where
  "fresh_window window_size start' end' st =
     \<lparr>search_window_size = window_size, start = start', end_dt = end',
      num_retries = 0, bookmarks = st, emitted = [], slept = 0, queries = 0\<rparr>"

text \<open>
  The variables of \<open>Users.sync\<close> on entering the loop (lines 171 to 180); the
  two sums of lines 174 and 175 may raise.
\<close>

definition users_init :: "int \<Rightarrow> int \<Rightarrow> state \<Rightarrow> error + window" where
  "users_init original_search_window_size bookmark st =
     (case plus_seconds bookmark (- 1) of
        Inl e \<Rightarrow> Inl e
      | Inr start' \<Rightarrow>
          (case plus_seconds start' original_search_window_size of
             Inl e \<Rightarrow> Inl e
           | Inr end' \<Rightarrow> Inr (fresh_window original_search_window_size start' end' st)))"

text \<open>\<open>Users.sync\<close>; \<open>now\<close> is \<open>singer.utils.now()\<close> in microseconds.\<close>

definition users_sync ::
  "nat \<Rightarrow> (nat \<Rightarrow> int \<Rightarrow> int \<Rightarrow> response) \<Rightarrow> int option \<Rightarrow> int \<Rightarrow> state
     \<Rightarrow> (error + window outcome) option" where
  "users_sync fuel search cfg now st =
     (let original_search_window_size = configured_window_size cfg in
      case get_bookmark users_stream st of
        Inl e \<Rightarrow> Some (Inl e)
      | Inr bookmark \<Rightarrow>
          (case users_init original_search_window_size bookmark st of
             Inl e \<Rightarrow> Some (Inl e)
           | Inr w \<Rightarrow>
               map_option Inr
                 (users_loop fuel search original_search_window_size (now - usec 60) w)))"

text \<open>
  The \<open>for\<close> loop over the ratings of one window in \<open>SatisfactionRatings.sync\<close>
  (lines 358 to 366). \<open>bookmark\<close> is the bookmark read on entering \<open>sync\<close>.
\<close>

fun ratings_loop :: "int \<Rightarrow> item list \<Rightarrow> window \<Rightarrow> window outcome" where
  "ratings_loop bookmark [] w = Normal w"
| "ratings_loop bookmark (satisfaction_rating # rest) w =
     (if \<not> start w \<le> updated_at satisfaction_rating then Raise ConsistencyViolation w
      else
        (case (if bookmark < updated_at satisfaction_rating
                    \<and> updated_at satisfaction_rating \<le> end_dt w
               then update_bookmark satisfaction_ratings_stream (bookmarks w)
                      (Some (updated_at satisfaction_rating))
               else Inr (bookmarks w)) of
           Inl e \<Rightarrow> Raise e w
         | Inr state' \<Rightarrow>
             ratings_loop bookmark rest
               (w\<lparr>bookmarks := state',
                   emitted := emitted w @
                     (if start w \<le> updated_at satisfaction_rating
                          \<and> updated_at satisfaction_rating \<le> end_dt w
                      then [satisfaction_rating] else [])\<rparr>)))"

text \<open>One pass through the body of the \<open>while\<close> loop of \<open>SatisfactionRatings.sync\<close>.\<close>

definition ratings_iter :: "int \<Rightarrow> int \<Rightarrow> response \<Rightarrow> window \<Rightarrow> window outcome" where
  "ratings_iter original_search_window_size bookmark satisfaction_ratings w =
     (if count satisfaction_ratings > 50000 then
        (let size' = search_window_size w div 2 in
         case plus_seconds (start w) size' of
           Inl e \<Rightarrow> Raise e (w\<lparr>search_window_size := size'\<rparr>)
         | Inr end' \<Rightarrow> Normal (w\<lparr>search_window_size := size', end_dt := end'\<rparr>))
      else
        (case ratings_loop bookmark (records satisfaction_ratings) w of
           Raise e w' \<Rightarrow> Raise e w'
         | Normal w' \<Rightarrow>
             (let size' = (if search_window_size w \<le> original_search_window_size div 2
                           then search_window_size w * 2 else search_window_size w);
                  w2 = w'\<lparr>search_window_size := size'\<rparr>
              in
              case plus_seconds (end_dt w) (- 1) of
                Inl e \<Rightarrow> Raise e w2
              | Inr start' \<Rightarrow>
                  (case plus_seconds start' size' of
                     Inl e \<Rightarrow> Raise e (w2\<lparr>start := start'\<rparr>)
                   | Inr end' \<Rightarrow> Normal (w2\<lparr>start := start', end_dt := end'\<rparr>)))))"

fun ratings_while ::
  "nat \<Rightarrow> (nat \<Rightarrow> int \<Rightarrow> int \<Rightarrow> response) \<Rightarrow> int \<Rightarrow> int \<Rightarrow> int \<Rightarrow> window
     \<Rightarrow> window outcome option" where
  "ratings_while 0 client original_search_window_size bookmark sync_end w =
     (if usec (start w) < sync_end then None else Some (Normal w))"
| "ratings_while (Suc n) client original_search_window_size bookmark sync_end w =
     (if usec (start w) < sync_end then
        (case ratings_iter original_search_window_size bookmark
                (client (queries w) (start w) (min (end_dt w) (parsed sync_end)))
                (w\<lparr>queries := Suc (queries w)\<rparr>) of
           Normal w' \<Rightarrow> ratings_while n client original_search_window_size bookmark sync_end w'
         | Raise e w' \<Rightarrow> Some (Raise e w'))
      else Some (Normal w))"

text \<open>
  The variables of \<open>SatisfactionRatings.sync\<close> on entering the loop (lines 331 to
  338); the sum of line 335 may raise.
\<close>

definition ratings_init :: "int \<Rightarrow> int \<Rightarrow> state \<Rightarrow> error + window" where
  "ratings_init original_search_window_size bookmark st =
     (case plus_seconds bookmark original_search_window_size of
        Inl e \<Rightarrow> Inl e
      | Inr end' \<Rightarrow> Inr (fresh_window original_search_window_size bookmark end' st))"

text \<open>\<open>SatisfactionRatings.sync\<close>.\<close>

definition ratings_sync ::
  "nat \<Rightarrow> (nat \<Rightarrow> int \<Rightarrow> int \<Rightarrow> response) \<Rightarrow> int option \<Rightarrow> int \<Rightarrow> state
     \<Rightarrow> (error + window outcome) option" where
  "ratings_sync fuel client cfg now st =
     (case get_bookmark satisfaction_ratings_stream st of
        Inl e \<Rightarrow> Some (Inl e)
      | Inr bookmark \<Rightarrow>
          (let original_search_window_size = configured_window_size cfg in
           case ratings_init original_search_window_size bookmark st of
             Inl e \<Rightarrow> Some (Inl e)
           | Inr w \<Rightarrow>
               map_option Inr
                 (ratings_while fuel client original_search_window_size bookmark
                    (now - usec 60) w)))"

section \<open>The child streams of tickets\<close>

text \<open>The fields of a ticket (\<open>ticket.to_dict()\<close>) that the child streams read.\<close>

record ticket =
  ticket_id :: int
  status :: string
  generated_timestamp :: int

definition ticket_audits_stream :: stream where
  "ticket_audits_stream =
     \<lparr>name = ''ticket_audits'', replication_key = ''ticket_generated_timestamp''\<rparr>"

definition ticket_metrics_stream :: stream where
  "ticket_metrics_stream =
     \<lparr>name = ''ticket_metrics'', replication_key = ''ticket_generated_timestamp''\<rparr>"

definition ticket_comments_stream :: stream where
  "ticket_comments_stream =
     \<lparr>name = ''ticket_comments'', replication_key = ''ticket_generated_timestamp''\<rparr>"

text \<open>
  The variables of the child loops: the list \<open>ids\<close>, the state dictionary and the
  children yielded so far, each paired with the \<open>ticket_generated_timestamp\<close> it was
  given. Two more fields observe the run: \<open>fetches\<close> lists the tickets for which a
  child fetch was sent to the client, in order, and \<open>warnings\<close> counts the calls of
  \<open>LOGGER.warning\<close>.
\<close>

record 'c expansion =
  ids :: "int list"
  child_bookmarks :: state
  children :: "('c \<times> int) list"
  fetches :: "ticket list"
  warnings :: nat

text \<open>
  \<open>Tickets.push_ticket_child\<close>, called on an instance whose stream is \<open>s\<close>: the
  bookmark update comes before the \<open>yield\<close>, so an exception there yields nothing.
\<close>

definition push_ticket_child ::
  "stream \<Rightarrow> ticket \<Rightarrow> 'c \<Rightarrow> 'c expansion \<Rightarrow> 'c expansion outcome" where
  "push_ticket_child s tkt child x =
     (let generated_timestamp_dt = generated_timestamp tkt + 1 in
      case update_bookmark s (child_bookmarks x) (Some generated_timestamp_dt) of
        Inl e \<Rightarrow> Raise e x
      | Inr state' \<Rightarrow>
          Normal (x\<lparr>child_bookmarks := state',
                     children := children x @ [(child, generated_timestamp tkt)]\<rparr>))"

text \<open>\<open>for child in ...: yield from self.push_ticket_child(state, ticket, child)\<close>\<close>

fun push_all :: "stream \<Rightarrow> ticket \<Rightarrow> 'c list \<Rightarrow> 'c expansion \<Rightarrow> 'c expansion outcome" where
  "push_all s tkt [] x = Normal x"
| "push_all s tkt (child # rest) x =
     (case push_ticket_child s tkt child x of
        Raise e x' \<Rightarrow> Raise e x'
      | Normal x' \<Rightarrow> push_all s tkt rest x')"

text \<open>
  The \<open>for ticket in tickets\<close> loop of \<open>TicketAudits.sync\<close> and of
  \<open>TicketComments.sync\<close>, which differ in the stream and in the client call only
  (\<open>client.tickets.audits\<close>, \<open>client.tickets.comments\<close>). The client call may raise.
\<close>

fun guarded_loop ::
  "stream \<Rightarrow> (int \<Rightarrow> error + 'c list) \<Rightarrow> ticket list \<Rightarrow> 'c expansion \<Rightarrow> 'c expansion outcome" where
  "guarded_loop s fetch [] x = Normal x"
| "guarded_loop s fetch (tkt # rest) x =
     (if status tkt \<noteq> ''deleted'' \<and> ticket_id tkt \<notin> set (ids x) then
        (case fetch (ticket_id tkt) of
           Inl e \<Rightarrow> Raise e (x\<lparr>fetches := fetches x @ [tkt]\<rparr>)
         | Inr cs \<Rightarrow>
             (case push_all s tkt cs
                     (x\<lparr>ids := ids x @ [ticket_id tkt], fetches := fetches x @ [tkt]\<rparr>) of
                Raise e x' \<Rightarrow> Raise e x'
              | Normal x' \<Rightarrow> guarded_loop s fetch rest x'))
      else guarded_loop s fetch rest x)"

text \<open>
  The loop of \<open>TicketMetrics.sync\<close>: no test of the status, and a \<open>try\<close> around the
  client call and the push whose \<open>except Exception\<close> logs a warning and goes on.
\<close>

fun metrics_loop ::
  "(int \<Rightarrow> error + 'c) \<Rightarrow> ticket list \<Rightarrow> 'c expansion \<Rightarrow> 'c expansion outcome" where
  "metrics_loop fetch [] x = Normal x"
| "metrics_loop fetch (tkt # rest) x =
     (if ticket_id tkt \<notin> set (ids x) then
        (let x1 = x\<lparr>ids := ids x @ [ticket_id tkt], fetches := fetches x @ [tkt]\<rparr> in
         case fetch (ticket_id tkt) of
           Inl e \<Rightarrow> metrics_loop fetch rest (x1\<lparr>warnings := warnings x1 + 1\<rparr>)
         | Inr ticket_metric \<Rightarrow>
             (case push_ticket_child ticket_metrics_stream tkt ticket_metric x1 of
                Raise e x' \<Rightarrow> metrics_loop fetch rest (x'\<lparr>warnings := warnings x' + 1\<rparr>)
              | Normal x' \<Rightarrow> metrics_loop fetch rest x'))
      else metrics_loop fetch rest x)"

definition expansion_init :: "state \<Rightarrow> 'c expansion" where
  "expansion_init st =
     \<lparr>ids = [], child_bookmarks = st, children = [], fetches = [], warnings = 0\<rparr>"

text \<open>
  The three \<open>sync\<close> methods: \<open>incremental\<close> is \<open>client.tickets.incremental\<close>, the
  listing of the tickets from the bookmark on.
\<close>

definition ticket_audits_sync ::
  "(int \<Rightarrow> ticket list) \<Rightarrow> (int \<Rightarrow> error + 'c list) \<Rightarrow> state \<Rightarrow> error + 'c expansion outcome" where
  "ticket_audits_sync incremental audits st =
     (case get_bookmark ticket_audits_stream st of
        Inl e \<Rightarrow> Inl e
      | Inr bookmark \<Rightarrow>
          Inr (guarded_loop ticket_audits_stream audits (incremental bookmark)
                 (expansion_init st)))"

definition ticket_comments_sync ::
  "(int \<Rightarrow> ticket list) \<Rightarrow> (int \<Rightarrow> error + 'c list) \<Rightarrow> state \<Rightarrow> error + 'c expansion outcome" where
  "ticket_comments_sync incremental comments st =
     (case get_bookmark ticket_comments_stream st of
        Inl e \<Rightarrow> Inl e
      | Inr bookmark \<Rightarrow>
          Inr (guarded_loop ticket_comments_stream comments (incremental bookmark)
                 (expansion_init st)))"

definition ticket_metrics_sync ::
  "(int \<Rightarrow> ticket list) \<Rightarrow> (int \<Rightarrow> error + 'c) \<Rightarrow> state \<Rightarrow> error + 'c expansion outcome" where
  "ticket_metrics_sync incremental metrics st =
     (case get_bookmark ticket_metrics_stream st of
        Inl e \<Rightarrow> Inl e
      | Inr bookmark \<Rightarrow>
          Inr (metrics_loop metrics (incremental bookmark) (expansion_init st)))"

section \<open>Group memberships\<close>

text \<open>
  A membership as the client gives it. Its \<open>id\<close> is \<open>None\<close> or an integer; its
  \<open>updated_at\<close> is \<open>None\<close>, the empty string or a timestamp. The source tests both by
  truth value: an id of 0 and an empty \<open>updated_at\<close> count as absent.
\<close>

datatype stamp = Null | Blank | Stamp int

record membership =
  membership_id :: "int option"
  membership_updated_at :: stamp

definition truthy :: "int option \<Rightarrow> bool" where
  "truthy v = (case v of None \<Rightarrow> False | Some n \<Rightarrow> n \<noteq> 0)"

definition group_memberships_stream :: stream where
  "group_memberships_stream = \<lparr>name = ''group_memberships'', replication_key = ''updated_at''\<rparr>"

record memberships_run =
  gm_bookmarks :: state
  gm_emitted :: "membership list"

text \<open>
  The \<open>else\<close> branch of line 479, taken when \<open>membership.updated_at\<close> is falsy.
\<close>

definition without_updated_at :: "membership \<Rightarrow> memberships_run \<Rightarrow> memberships_run outcome" where
  "without_updated_at m x =
     (if truthy (membership_id m) then Normal (x\<lparr>gm_emitted := gm_emitted x @ [m]\<rparr>)
      else Normal x)"

text \<open>The body of the \<open>for\<close> loop of \<open>GroupMemberships.sync\<close> for one membership.\<close>

definition membership_step :: "int \<Rightarrow> membership \<Rightarrow> memberships_run \<Rightarrow> memberships_run outcome" where
  "membership_step bookmark m x =
     (case membership_updated_at m of
        Stamp u \<Rightarrow>
          (if u \<ge> bookmark then
             (case update_bookmark group_memberships_stream (gm_bookmarks x) (Some u) of
                Inl e \<Rightarrow> Raise e x
              | Inr state' \<Rightarrow>
                  Normal (x\<lparr>gm_bookmarks := state', gm_emitted := gm_emitted x @ [m]\<rparr>))
           else Normal x)
      | Null \<Rightarrow> without_updated_at m x
      | Blank \<Rightarrow> without_updated_at m x)"

fun memberships_loop :: "int \<Rightarrow> membership list \<Rightarrow> memberships_run \<Rightarrow> memberships_run outcome" where
  "memberships_loop bookmark [] x = Normal x"
| "memberships_loop bookmark (m # rest) x =
     (case membership_step bookmark m x of
        Raise e x' \<Rightarrow> Raise e x'
      | Normal x' \<Rightarrow> memberships_loop bookmark rest x')"

definition group_memberships_sync ::
  "membership list \<Rightarrow> state \<Rightarrow> error + memberships_run outcome" where
  "group_memberships_sync memberships st =
     (case get_bookmark group_memberships_stream st of
        Inl e \<Rightarrow> Inl e
      | Inr bookmark \<Rightarrow>
          Inr (memberships_loop bookmark memberships \<lparr>gm_bookmarks = st, gm_emitted = []\<rparr>))"

section \<open>The bookmark never regresses\<close>

lemma update_bookmark_value:
  assumes "get_bookmark s st = Inr cur"
  shows "update_bookmark s st v =
           Inr (case v of
                  None \<Rightarrow> st
                | Some c \<Rightarrow> if c > cur then st((name s, replication_key s) \<mapsto> c + 1) else st)"
  using assms by (simp add: update_bookmark_def split: option.splits)

lemma update_bookmark_mono:
  assumes "get_bookmark s st = Inr cur"
  shows "\<exists>st' new. update_bookmark s st v = Inr st' \<and> get_bookmark s st' = Inr new \<and> cur \<le> new"
proof (cases v)
  case None
  with assms show ?thesis by (simp add: update_bookmark_def)
next
  case (Some c)
  show ?thesis
  proof (cases "c > cur")
    case True
    with Some assms show ?thesis
      by (simp add: update_bookmark_def get_bookmark_def)
  next
    case False
    with Some assms show ?thesis by (simp add: update_bookmark_def)
  qed
qed

lemma advance_all_mono:
  "get_bookmark s st = Inr cur \<Longrightarrow>
     \<exists>st' new. advance_all s st vs = Inr st' \<and> get_bookmark s st' = Inr new \<and> cur \<le> new"
proof (induction vs arbitrary: st cur)
  case Nil
  then show ?case by simp
next
  case (Cons v vs)
  from update_bookmark_mono [OF Cons.prems, of v]
  obtain st1 mid where step: "update_bookmark s st v = Inr st1"
    and mid: "get_bookmark s st1 = Inr mid" and le: "cur \<le> mid"
    by blast
  from Cons.IH [OF mid]
  obtain st' new where "advance_all s st1 vs = Inr st'"
    and "get_bookmark s st' = Inr new" and "mid \<le> new"
    by blast
  with step le show ?case by auto
qed

text \<open>
  Claim C1. For every stream, state and candidate value, \<open>update_bookmark\<close> sets the
  stream's bookmark to the candidate plus one second when the candidate is strictly
  greater than the current bookmark, and leaves the state as it is otherwise; and
  after any sequence of advances the bookmark is at least what it was.
\<close>

theorem update_bookmark_advance_no_regress:
  assumes "get_bookmark s st = Inr cur"
  shows "update_bookmark s st v =
           Inr (case v of
                  None \<Rightarrow> st
                | Some c \<Rightarrow> if c > cur then st((name s, replication_key s) \<mapsto> c + 1) else st)
         \<and> (\<exists>st' new. advance_all s st vs = Inr st' \<and> get_bookmark s st' = Inr new \<and> cur \<le> new)"
  using update_bookmark_value [OF assms] advance_all_mono [OF assms] by blast

theorem update_bookmark_advance_no_regress_witness:
  "get_bookmark users_stream [(''users'', ''updated_at'') \<mapsto> 10] = Inr 10
   \<and> update_bookmark users_stream [(''users'', ''updated_at'') \<mapsto> 10] (Some 20)
       = Inr [(''users'', ''updated_at'') \<mapsto> 21]
   \<and> (\<exists>st' new. advance_all users_stream [(''users'', ''updated_at'') \<mapsto> 10]
                         [Some 5, None, Some 30] = Inr st'
         \<and> get_bookmark users_stream st' = Inr new \<and> 10 \<le> new)"
proof -
  have h: "get_bookmark users_stream [(''users'', ''updated_at'') \<mapsto> 10] = Inr 10"
    by (simp add: get_bookmark_def users_stream_def)
  show ?thesis
    using h update_bookmark_advance_no_regress [OF h, of "Some 20" "[Some 5, None, Some 30]"]
    by (simp add: users_stream_def)
qed

section \<open>Lemmas on the window loops\<close>

lemma plus_seconds_ok:
  "datetime_min \<le> dt + n \<Longrightarrow> dt + n \<le> datetime_max \<Longrightarrow> plus_seconds dt n = Inr (dt + n)"
  by (simp add: plus_seconds_def)

lemma plus_seconds_cases:
  "plus_seconds dt n = Inr (dt + n) \<or> plus_seconds dt n = Inl OverflowError"
  by (simp add: plus_seconds_def)

lemma users_retry:
  assumes "count users \<le> 1000"
    and "\<not> list_all (\<lambda>user. start w \<le> updated_at user) (records users)"
    and "num_retries w < 60"
  shows "users_iter orig sync_end users w
           = Normal (w\<lparr>slept := slept w + 30, num_retries := num_retries w + 1\<rparr>)"
  using assms by (simp add: users_iter_def)

lemma users_exhausted:
  assumes "count users \<le> 1000"
    and "\<not> list_all (\<lambda>user. start w \<le> updated_at user) (records users)"
    and "\<not> num_retries w < 60"
  shows "users_iter orig sync_end users w = Raise ConsistencyViolation w"
  using assms by (simp add: users_iter_def)

lemma users_pass_final:
  assumes "count users \<le> 1000"
    and "list_all (\<lambda>user. start w \<le> updated_at user) (records users)"
  shows "num_retries (final (users_iter orig sync_end users w)) = 0"
  using assms by (simp add: users_iter_def Let_def split: sum.splits)

lemma users_persisting_violation:
  assumes viol: "\<And>q. count (search q (start w) (min (end_dt w) (parsed sync_end))) \<le> 1000
             \<and> \<not> list_all (\<lambda>user. start w \<le> updated_at user)
                   (records (search q (start w) (min (end_dt w) (parsed sync_end))))"
    and run: "usec (start w) < sync_end"
    and k: "num_retries w + k = 60"
  shows "users_loop (Suc k) search orig sync_end w
           = Some (Raise ConsistencyViolation
                     (w\<lparr>slept := slept w + 30 * k, num_retries := 60,
                        queries := queries w + Suc k\<rparr>))"
  using viol run k
proof (induction k arbitrary: w)
  case 0
  let ?w1 = "w\<lparr>queries := Suc (queries w)\<rparr>"
  have "users_iter orig sync_end
          (search (queries w) (start w) (min (end_dt w) (parsed sync_end))) ?w1
        = Raise ConsistencyViolation ?w1"
    using 0 by (intro users_exhausted) auto
  then show ?case using 0 by simp
next
  case (Suc k)
  let ?w1 = "w\<lparr>queries := Suc (queries w)\<rparr>"
  let ?w2 = "?w1\<lparr>slept := slept ?w1 + 30, num_retries := num_retries ?w1 + 1\<rparr>"
  have step: "users_iter orig sync_end
                (search (queries w) (start w) (min (end_dt w) (parsed sync_end))) ?w1 = Normal ?w2"
    using Suc.prems by (intro users_retry) auto
  have "users_loop (Suc k) search orig sync_end ?w2
          = Some (Raise ConsistencyViolation
                     (?w2\<lparr>slept := slept ?w2 + 30 * k, num_retries := 60,
                        queries := queries ?w2 + Suc k\<rparr>))"
    using Suc.prems by (intro Suc.IH) auto
  then show ?case using step Suc.prems(2) by simp
qed

lemma users_loop_short:
  assumes viol: "\<And>q. count (search q (start w) (min (end_dt w) (parsed sync_end))) \<le> 1000
             \<and> \<not> list_all (\<lambda>user. start w \<le> updated_at user)
                   (records (search q (start w) (min (end_dt w) (parsed sync_end))))"
    and run: "usec (start w) < sync_end"
    and k: "num_retries w + k \<le> 60"
  shows "users_loop k search orig sync_end w = None"
  using viol run k
proof (induction k arbitrary: w)
  case 0
  then show ?case by simp
next
  case (Suc k)
  let ?w1 = "w\<lparr>queries := Suc (queries w)\<rparr>"
  let ?w2 = "?w1\<lparr>slept := slept ?w1 + 30, num_retries := num_retries ?w1 + 1\<rparr>"
  have step: "users_iter orig sync_end
                (search (queries w) (start w) (min (end_dt w) (parsed sync_end))) ?w1 = Normal ?w2"
    using Suc.prems by (intro users_retry) auto
  have "users_loop k search orig sync_end ?w2 = None"
    using Suc.prems by (intro Suc.IH) auto
  then show ?case using step Suc.prems(2) by simp
qed

lemma users_iter_emitted:
  "\<exists>new. emitted (final (users_iter orig sync_end users w)) = emitted w @ new
     \<and> list_all (\<lambda>r. start w \<le> updated_at r \<and> updated_at r \<le> end_dt w
                    \<and> updated_at r \<le> parsed sync_end) new"
  by (auto simp add: users_iter_def Let_def list_all_iff split: sum.splits)

lemma ratings_loop_emitted:
  "start (final (ratings_loop bookmark rs w)) = start w
   \<and> end_dt (final (ratings_loop bookmark rs w)) = end_dt w
   \<and> (\<exists>new. emitted (final (ratings_loop bookmark rs w)) = emitted w @ new
         \<and> list_all (\<lambda>r. start w \<le> updated_at r \<and> updated_at r \<le> end_dt w) new)"
proof (induction rs arbitrary: w)
  case Nil
  then show ?case by simp
next
  case (Cons r rs)
  show ?case
  proof (cases "start w \<le> updated_at r")
    case False
    then show ?thesis by simp
  next
    case True
    let ?upd = "if bookmark < updated_at r \<and> updated_at r \<le> end_dt w
               then update_bookmark satisfaction_ratings_stream (bookmarks w) (Some (updated_at r))
               else Inr (bookmarks w)"
    show ?thesis
    proof (cases ?upd)
      case (Inl err)
      with True show ?thesis by simp
    next
      case (Inr st')
      let ?w1 = "w\<lparr>bookmarks := st',
                   emitted := emitted w @
                     (if start w \<le> updated_at r \<and> updated_at r \<le> end_dt w then [r] else [])\<rparr>"
      have eq: "ratings_loop bookmark (r # rs) w = ratings_loop bookmark rs ?w1"
        using True Inr by simp
      from Cons.IH [of ?w1]
      obtain new where "start (final (ratings_loop bookmark rs ?w1)) = start w"
        "end_dt (final (ratings_loop bookmark rs ?w1)) = end_dt w"
        and em: "emitted (final (ratings_loop bookmark rs ?w1)) = emitted ?w1 @ new"
        and ok: "list_all (\<lambda>r. start w \<le> updated_at r \<and> updated_at r \<le> end_dt w) new"
        by auto
      then show ?thesis unfolding eq by auto
    qed
  qed
qed

lemma ratings_iter_emitted:
  "\<exists>new. emitted (final (ratings_iter orig bookmark ratings w)) = emitted w @ new
     \<and> list_all (\<lambda>r. start w \<le> updated_at r \<and> updated_at r \<le> end_dt w) new"
proof (cases "count ratings > 50000")
  case True
  then show ?thesis by (auto simp: ratings_iter_def Let_def split: sum.splits)
next
  case False
  from ratings_loop_emitted [of bookmark "records ratings" w]
  obtain new where n: "emitted (final (ratings_loop bookmark (records ratings) w)) = emitted w @ new"
    "list_all (\<lambda>r. start w \<le> updated_at r \<and> updated_at r \<le> end_dt w) new" by blast
  show ?thesis
  proof (cases "ratings_loop bookmark (records ratings) w")
    case (Normal w1)
    with n False show ?thesis
      by (auto simp: ratings_iter_def Let_def split: sum.splits)
  next
    case (Raise e1 w1)
    with n False show ?thesis by (auto simp: ratings_iter_def)
  qed
qed

lemma update_bookmark_keeps:
  assumes "get_bookmark s st = Inr b"
  shows "\<exists>st' b'. update_bookmark s st v = Inr st' \<and> get_bookmark s st' = Inr b'"
  using assms
  by (cases v) (auto simp: update_bookmark_def get_bookmark_def)

lemma users_iter_ok:
  assumes cap: "count users \<le> 1000"
    and cons: "list_all (\<lambda>user. start w \<le> updated_at user) (records users)"
    and bm: "get_bookmark users_stream (bookmarks w) = Inr b"
    and sz: "search_window_size w = orig" "2 \<le> orig"
    and e: "end_dt w = start w + orig"
    and lo: "datetime_min \<le> start w"
    and hi: "start w + 2 * orig \<le> datetime_max"
  shows "\<exists>w' b'. users_iter orig sync_end users w = Normal w'
           \<and> start w' = start w + orig - 1 \<and> search_window_size w' = orig
           \<and> end_dt w' = start w' + orig \<and> queries w' = queries w
           \<and> get_bookmark users_stream (bookmarks w') = Inr b'"
proof -
  from update_bookmark_keeps [OF bm, of "Some (min (end_dt w) (parsed sync_end))"]
  obtain st' b' where
    up: "update_bookmark users_stream (bookmarks w) (Some (min (end_dt w) (parsed sync_end))) = Inr st'"
    and b': "get_bookmark users_stream st' = Inr b'" by blast
  from sz have nodouble: "\<not> search_window_size w \<le> orig div 2" by simp
  have p1: "plus_seconds (end_dt w) (- 1) = Inr (start w + orig - 1)"
    using e sz lo hi by (simp add: plus_seconds_def)
  have p2: "plus_seconds (start w + orig - 1) orig = Inr (start w + orig - 1 + orig)"
    using sz lo hi by (simp add: plus_seconds_def)
  show ?thesis
    using cap cons up b' nodouble sz p1 p2
    by (simp add: users_iter_def Let_def)
qed

lemma users_loop_terminates:
  assumes ok: "\<And>q s e. count (search q s e) \<le> 1000
                  \<and> list_all (\<lambda>user. s \<le> updated_at user) (records (search q s e))"
    and sz: "2 \<le> orig"
    and hi: "parsed sync_end + 2 * orig \<le> datetime_max"
  shows "search_window_size w = orig \<Longrightarrow> end_dt w = start w + orig
         \<Longrightarrow> get_bookmark users_stream (bookmarks w) = Inr b
         \<Longrightarrow> datetime_min \<le> start w
         \<Longrightarrow> sync_end - usec (start w) \<le> usec (int fuel)
         \<Longrightarrow> \<exists>w'. users_loop fuel search orig sync_end w = Some (Normal w')
                  \<and> sync_end \<le> usec (start w')"
proof (induction fuel arbitrary: w b)
  case 0
  then have "\<not> usec (start w) < sync_end" by (simp add: usec_def)
  then show ?case by simp
next
  case (Suc n)
  show ?case
  proof (cases "usec (start w) < sync_end")
    case False
    then show ?thesis by simp
  next
    case True
    let ?w1 = "w\<lparr>queries := Suc (queries w)\<rparr>"
    let ?r = "search (queries w) (start w) (min (end_dt w) (parsed sync_end))"
    from True have "start w \<le> parsed sync_end"
      by (simp add: usec_def parsed_def)
    with hi have hi': "start ?w1 + 2 * orig \<le> datetime_max" by simp
    have c1: "count ?r \<le> 1000"
      and c2: "list_all (\<lambda>user. start ?w1 \<le> updated_at user) (records ?r)"
      using ok [of "queries w" "start w" "min (end_dt w) (parsed sync_end)"] by simp_all
    have c3: "get_bookmark users_stream (bookmarks ?w1) = Inr b" using Suc.prems(3) by simp
    have c4: "search_window_size ?w1 = orig" using Suc.prems(1) by simp
    have c5: "end_dt ?w1 = start ?w1 + orig" using Suc.prems(2) by simp
    have c6: "datetime_min \<le> start ?w1" using Suc.prems(4) by simp
    from users_iter_ok [OF c1 c2 c3 c4 sz c5 c6 hi', of sync_end]
    obtain w2 b2 where it: "users_iter orig sync_end ?r ?w1 = Normal w2"
      and st2': "start w2 = start ?w1 + orig - 1" and sz2: "search_window_size w2 = orig"
      and e2: "end_dt w2 = start w2 + orig"
      and bm2: "get_bookmark users_stream (bookmarks w2) = Inr b2" by blast
    from st2' have st2: "start w2 = start w + orig - 1" by simp
    from st2 sz have adv: "start w + 1 \<le> start w2" by simp
    then have "usec (start w) + 1000000 \<le> usec (start w2)" by (simp add: usec_def)
    with Suc.prems(5) have f: "sync_end - usec (start w2) \<le> usec (int n)"
      by (simp add: usec_def)
    from adv Suc.prems(4) have lo2: "datetime_min \<le> start w2" by simp
    from Suc.IH [OF sz2 e2 bm2 lo2 f]
    obtain w' where "users_loop n search orig sync_end w2 = Some (Normal w')"
      "sync_end \<le> usec (start w')" by blast
    with True it show ?thesis by simp
  qed
qed

lemma ratings_loop_ok:
  "list_all (\<lambda>r. start w \<le> updated_at r) rs
   \<Longrightarrow> get_bookmark satisfaction_ratings_stream (bookmarks w) = Inr b
   \<Longrightarrow> \<exists>w' b'. ratings_loop bookmark rs w = Normal w'
          \<and> start w' = start w \<and> end_dt w' = end_dt w
          \<and> search_window_size w' = search_window_size w \<and> queries w' = queries w
          \<and> get_bookmark satisfaction_ratings_stream (bookmarks w') = Inr b'"
proof (induction rs arbitrary: w b)
  case Nil
  then show ?case by simp
next
  case (Cons r rs)
  let ?upd = "if bookmark < updated_at r \<and> updated_at r \<le> end_dt w
               then update_bookmark satisfaction_ratings_stream (bookmarks w) (Some (updated_at r))
               else Inr (bookmarks w)"
  from update_bookmark_keeps [OF Cons.prems(2), of "Some (updated_at r)"] Cons.prems(2)
  obtain st' b' where up: "?upd = Inr st'"
    and b': "get_bookmark satisfaction_ratings_stream st' = Inr b'"
    by (cases "bookmark < updated_at r \<and> updated_at r \<le> end_dt w") auto
  let ?w1 = "w\<lparr>bookmarks := st',
               emitted := emitted w @
                 (if start w \<le> updated_at r \<and> updated_at r \<le> end_dt w then [r] else [])\<rparr>"
  have "list_all (\<lambda>r. start ?w1 \<le> updated_at r) rs" using Cons.prems(1) by simp
  moreover have "get_bookmark satisfaction_ratings_stream (bookmarks ?w1) = Inr b'"
    using b' by simp
  ultimately obtain w' b'' where "ratings_loop bookmark rs ?w1 = Normal w'"
    "start w' = start ?w1" "end_dt w' = end_dt ?w1"
    "search_window_size w' = search_window_size ?w1" "queries w' = queries ?w1"
    "get_bookmark satisfaction_ratings_stream (bookmarks w') = Inr b''"
    using Cons.IH [of ?w1 b'] by blast
  moreover have "ratings_loop bookmark (r # rs) w = ratings_loop bookmark rs ?w1"
    using Cons.prems(1) up by simp
  ultimately show ?case by simp
qed

lemma ratings_iter_ok:
  assumes cap: "count ratings \<le> 50000"
    and cons: "list_all (\<lambda>r. start w \<le> updated_at r) (records ratings)"
    and bm: "get_bookmark satisfaction_ratings_stream (bookmarks w) = Inr b"
    and sz: "search_window_size w = orig" "2 \<le> orig"
    and e: "end_dt w = start w + orig"
    and lo: "datetime_min \<le> start w"
    and hi: "start w + 2 * orig \<le> datetime_max"
  shows "\<exists>w' b'. ratings_iter orig bookmark ratings w = Normal w'
           \<and> start w' = start w + orig - 1 \<and> search_window_size w' = orig
           \<and> end_dt w' = start w' + orig
           \<and> get_bookmark satisfaction_ratings_stream (bookmarks w') = Inr b'"
proof -
  from ratings_loop_ok [OF cons bm, of bookmark]
  obtain w1 b1 where l: "ratings_loop bookmark (records ratings) w = Normal w1"
    and "start w1 = start w" "end_dt w1 = end_dt w"
    and "get_bookmark satisfaction_ratings_stream (bookmarks w1) = Inr b1" by blast
  moreover from sz have "\<not> search_window_size w \<le> orig div 2" by simp
  moreover have "plus_seconds (end_dt w) (- 1) = Inr (start w + orig - 1)"
    using e sz lo hi by (simp add: plus_seconds_def)
  moreover have "plus_seconds (start w + orig - 1) orig = Inr (start w + orig - 1 + orig)"
    using sz lo hi by (simp add: plus_seconds_def)
  ultimately show ?thesis using cap sz
    by (simp add: ratings_iter_def Let_def)
qed

lemma ratings_while_terminates:
  assumes ok: "\<And>q s e. count (client q s e) \<le> 50000
                  \<and> list_all (\<lambda>r. s \<le> updated_at r) (records (client q s e))"
    and sz: "2 \<le> orig"
    and hi: "parsed sync_end + 2 * orig \<le> datetime_max"
  shows "search_window_size w = orig \<Longrightarrow> end_dt w = start w + orig
         \<Longrightarrow> get_bookmark satisfaction_ratings_stream (bookmarks w) = Inr b
         \<Longrightarrow> datetime_min \<le> start w
         \<Longrightarrow> sync_end - usec (start w) \<le> usec (int fuel)
         \<Longrightarrow> \<exists>w'. ratings_while fuel client orig bookmark sync_end w = Some (Normal w')
                  \<and> sync_end \<le> usec (start w')"
proof (induction fuel arbitrary: w b)
  case 0
  then have "\<not> usec (start w) < sync_end" by (simp add: usec_def)
  then show ?case by simp
next
  case (Suc n)
  show ?case
  proof (cases "usec (start w) < sync_end")
    case False
    then show ?thesis by simp
  next
    case True
    let ?w1 = "w\<lparr>queries := Suc (queries w)\<rparr>"
    let ?r = "client (queries w) (start w) (min (end_dt w) (parsed sync_end))"
    from True have "start w \<le> parsed sync_end"
      by (simp add: usec_def parsed_def)
    with hi have hi': "start ?w1 + 2 * orig \<le> datetime_max" by simp
    have c1: "count ?r \<le> 50000"
      and c2: "list_all (\<lambda>r. start ?w1 \<le> updated_at r) (records ?r)"
      using ok [of "queries w" "start w" "min (end_dt w) (parsed sync_end)"] by simp_all
    have c3: "get_bookmark satisfaction_ratings_stream (bookmarks ?w1) = Inr b"
      using Suc.prems(3) by simp
    have c4: "search_window_size ?w1 = orig" using Suc.prems(1) by simp
    have c5: "end_dt ?w1 = start ?w1 + orig" using Suc.prems(2) by simp
    have c6: "datetime_min \<le> start ?w1" using Suc.prems(4) by simp
    from ratings_iter_ok [OF c1 c2 c3 c4 sz c5 c6 hi', of bookmark]
    obtain w2 b2 where it: "ratings_iter orig bookmark ?r ?w1 = Normal w2"
      and st2': "start w2 = start ?w1 + orig - 1" and sz2: "search_window_size w2 = orig"
      and e2: "end_dt w2 = start w2 + orig"
      and bm2: "get_bookmark satisfaction_ratings_stream (bookmarks w2) = Inr b2" by blast
    from st2' have st2: "start w2 = start w + orig - 1" by simp
    from st2 sz have adv: "start w + 1 \<le> start w2" by simp
    then have "usec (start w) + 1000000 \<le> usec (start w2)" by (simp add: usec_def)
    with Suc.prems(5) have f: "sync_end - usec (start w2) \<le> usec (int n)"
      by (simp add: usec_def)
    from adv Suc.prems(4) have lo2: "datetime_min \<le> start w2" by simp
    from Suc.IH [OF sz2 e2 bm2 lo2 f]
    obtain w' where "ratings_while n client orig bookmark sync_end w2 = Some (Normal w')"
      "sync_end \<le> usec (start w')" by blast
    with True it show ?thesis by simp
  qed
qed

lemma users_stuck:
  "search_window_size w = 1 \<Longrightarrow> end_dt w = start w + 1 \<Longrightarrow> usec (start w) < sync_end
   \<Longrightarrow> datetime_min \<le> start w \<Longrightarrow> start w + 1 \<le> datetime_max
   \<Longrightarrow> get_bookmark users_stream (bookmarks w) = Inr b
   \<Longrightarrow> users_loop fuel (\<lambda>q s e. \<lparr>count = 0, records = []\<rparr>) 1 sync_end w = None"
proof (induction fuel arbitrary: w b)
  case 0
  then show ?case by simp
next
  case (Suc n)
  let ?w1 = "w\<lparr>queries := Suc (queries w)\<rparr>"
  from update_bookmark_keeps [OF Suc.prems(6), of "Some (min (end_dt w) (parsed sync_end))"]
  obtain st' b' where
    up: "update_bookmark users_stream (bookmarks w) (Some (min (end_dt w) (parsed sync_end))) = Inr st'"
    and b': "get_bookmark users_stream st' = Inr b'" by blast
  let ?w2 = "?w1\<lparr>num_retries := 0, emitted := emitted w @ [], bookmarks := st',
                  search_window_size := 1, start := start w, end_dt := start w + 1\<rparr>"
  have p1: "plus_seconds (end_dt w) (- 1) = Inr (start w)"
    using Suc.prems by (simp add: plus_seconds_def)
  have p2: "plus_seconds (start w) 1 = Inr (start w + 1)"
    using Suc.prems by (simp add: plus_seconds_def)
  have it: "users_iter 1 sync_end \<lparr>count = 0, records = []\<rparr> ?w1 = Normal ?w2"
    using up p1 p2 Suc.prems(1) by (simp add: users_iter_def Let_def)
  have "users_loop n (\<lambda>q s e. \<lparr>count = 0, records = []\<rparr>) 1 sync_end ?w2 = None"
    using Suc.prems b' by (intro Suc.IH [where b = b']) auto
  with it Suc.prems(3) show ?case by simp
qed

lemma ratings_stuck:
  "search_window_size w = 1 \<Longrightarrow> end_dt w = start w + 1 \<Longrightarrow> usec (start w) < sync_end
   \<Longrightarrow> datetime_min \<le> start w \<Longrightarrow> start w + 1 \<le> datetime_max
   \<Longrightarrow> ratings_while fuel (\<lambda>q s e. \<lparr>count = 0, records = []\<rparr>) 1 bookmark sync_end w = None"
proof (induction fuel arbitrary: w)
  case 0
  then show ?case by simp
next
  case (Suc n)
  let ?w1 = "w\<lparr>queries := Suc (queries w)\<rparr>"
  let ?w2 = "?w1\<lparr>search_window_size := 1, start := start w, end_dt := start w + 1\<rparr>"
  have p1: "plus_seconds (end_dt w) (- 1) = Inr (start w)"
    using Suc.prems by (simp add: plus_seconds_def)
  have p2: "plus_seconds (start w) 1 = Inr (start w + 1)"
    using Suc.prems by (simp add: plus_seconds_def)
  have it: "ratings_iter 1 bookmark \<lparr>count = 0, records = []\<rparr> ?w1 = Normal ?w2"
    using p1 p2 Suc.prems(1) by (simp add: ratings_iter_def Let_def)
  have "ratings_while n (\<lambda>q s e. \<lparr>count = 0, records = []\<rparr>) 1 bookmark sync_end ?w2 = None"
    using Suc.prems by (intro Suc.IH) auto
  with it Suc.prems(3) show ?case by simp
qed

lemma users_over_cap:
  assumes "count users > 1000"
    and "datetime_min \<le> start w + search_window_size w div 2"
    and "start w + search_window_size w div 2 \<le> datetime_max"
  shows "users_iter orig sync_end users w
           = (if search_window_size w > 1
              then Normal (w\<lparr>search_window_size := search_window_size w div 2,
                             end_dt := start w + search_window_size w div 2\<rparr>)
              else Raise CapacityExceeded w)"
  using assms by (simp add: users_iter_def plus_seconds_def Let_def)

lemma ratings_over_cap:
  assumes "count ratings > 50000"
    and "datetime_min \<le> start w + search_window_size w div 2"
    and "start w + search_window_size w div 2 \<le> datetime_max"
  shows "ratings_iter orig bookmark ratings w
           = Normal (w\<lparr>search_window_size := search_window_size w div 2,
                        end_dt := start w + search_window_size w div 2\<rparr>)"
  using assms by (simp add: ratings_iter_def plus_seconds_def Let_def)

lemma ratings_while_spins:
  assumes over: "\<And>q s e. count (client q s e) > 50000"
  shows "usec (start w) < sync_end
    \<Longrightarrow> datetime_min \<le> start w \<Longrightarrow> start w \<le> datetime_max
    \<Longrightarrow> datetime_min \<le> start w + search_window_size w
    \<Longrightarrow> start w + search_window_size w \<le> datetime_max
    \<Longrightarrow> ratings_while fuel client orig bookmark sync_end w = None"
proof (induction fuel arbitrary: w)
  case 0
  then show ?case by simp
next
  case (Suc n)
  let ?w1 = "w\<lparr>queries := Suc (queries w)\<rparr>"
  let ?w2 = "?w1\<lparr>search_window_size := search_window_size ?w1 div 2,
                  end_dt := start ?w1 + search_window_size ?w1 div 2\<rparr>"
  have r: "datetime_min \<le> start w + search_window_size w div 2"
    "start w + search_window_size w div 2 \<le> datetime_max"
    using Suc.prems(2-5) by linarith+
  have it: "ratings_iter orig bookmark
              (client (queries w) (start w) (min (end_dt w) (parsed sync_end))) ?w1 = Normal ?w2"
    using over r by (intro ratings_over_cap) auto
  have "ratings_while n client orig bookmark sync_end ?w2 = None"
    using Suc.prems r by (intro Suc.IH) simp_all
  with it Suc.prems show ?case by simp
qed

section \<open>The consistency guard and the window bounds\<close>

text \<open>
  Claim C3. In \<open>Users.sync\<close>, when a window within the cap holds a record whose
  timestamp is below the window start, the pass sleeps 30 seconds and leaves the window
  as it was, so that the same query is sent again, as long as fewer than 60 retries
  were made; with 60 retries made it raises, with nothing emitted; a window that passes
  the check sets the retry counter to zero. A violation that persists from a fresh
  window on makes the loop raise on its 61st query, not before, having slept 60 times
  and emitted nothing.
\<close>

theorem users_consistency_guard:
  assumes "count users \<le> 1000"
  shows "(\<not> list_all (\<lambda>user. start w \<le> updated_at user) (records users) \<and> num_retries w < 60
            \<longrightarrow> users_iter orig sync_end users w
                 = Normal (w\<lparr>slept := slept w + 30, num_retries := num_retries w + 1\<rparr>))
       \<and> (\<not> list_all (\<lambda>user. start w \<le> updated_at user) (records users) \<and> \<not> num_retries w < 60
            \<longrightarrow> users_iter orig sync_end users w = Raise ConsistencyViolation w)
       \<and> (list_all (\<lambda>user. start w \<le> updated_at user) (records users)
            \<longrightarrow> num_retries (final (users_iter orig sync_end users w)) = 0)
       \<and> ((\<forall>q. count (search q (start w) (min (end_dt w) (parsed sync_end))) \<le> 1000
                 \<and> \<not> list_all (\<lambda>user. start w \<le> updated_at user)
                       (records (search q (start w) (min (end_dt w) (parsed sync_end)))))
            \<and> usec (start w) < sync_end \<and> num_retries w = 0
            \<longrightarrow> users_loop 60 search orig sync_end w = None
                \<and> users_loop 61 search orig sync_end w
                    = Some (Raise ConsistencyViolation
                        (w\<lparr>slept := slept w + 1800, num_retries := 60,
                           queries := queries w + 61\<rparr>)))"
proof (intro conjI impI)
  assume "\<not> list_all (\<lambda>user. start w \<le> updated_at user) (records users) \<and> num_retries w < 60"
  with assms show "users_iter orig sync_end users w
                 = Normal (w\<lparr>slept := slept w + 30, num_retries := num_retries w + 1\<rparr>)"
    by (intro users_retry) auto
next
  assume "\<not> list_all (\<lambda>user. start w \<le> updated_at user) (records users) \<and> \<not> num_retries w < 60"
  with assms show "users_iter orig sync_end users w = Raise ConsistencyViolation w"
    by (intro users_exhausted) auto
next
  assume "list_all (\<lambda>user. start w \<le> updated_at user) (records users)"
  with assms show "num_retries (final (users_iter orig sync_end users w)) = 0"
    by (rule users_pass_final)
next
  assume h: "(\<forall>q. count (search q (start w) (min (end_dt w) (parsed sync_end))) \<le> 1000
                 \<and> \<not> list_all (\<lambda>user. start w \<le> updated_at user)
                       (records (search q (start w) (min (end_dt w) (parsed sync_end)))))
            \<and> usec (start w) < sync_end \<and> num_retries w = 0"
  then show "users_loop 60 search orig sync_end w = None"
    by (intro users_loop_short) auto
next
  assume h: "(\<forall>q. count (search q (start w) (min (end_dt w) (parsed sync_end))) \<le> 1000
                 \<and> \<not> list_all (\<lambda>user. start w \<le> updated_at user)
                       (records (search q (start w) (min (end_dt w) (parsed sync_end)))))
            \<and> usec (start w) < sync_end \<and> num_retries w = 0"
  then have "users_loop (Suc 60) search orig sync_end w
           = Some (Raise ConsistencyViolation
                     (w\<lparr>slept := slept w + 30 * 60, num_retries := 60,
                        queries := queries w + Suc 60\<rparr>))"
    by (intro users_persisting_violation) auto
  then show "users_loop 61 search orig sync_end w
                    = Some (Raise ConsistencyViolation
                        (w\<lparr>slept := slept w + 1800, num_retries := 60,
                           queries := queries w + 61\<rparr>))"
    by simp
qed

theorem users_consistency_guard_witness:
  "users_iter 100 (usec 1000) \<lparr>count = 1, records = [\<lparr>item_id = 1, updated_at = 5\<rparr>]\<rparr>
       (fresh_window 100 9 109 Map.empty)
     = Normal ((fresh_window 100 9 109 Map.empty)\<lparr>slept := 30, num_retries := 1\<rparr>)
   \<and> users_iter 100 (usec 1000) \<lparr>count = 1, records = [\<lparr>item_id = 1, updated_at = 5\<rparr>]\<rparr>
       ((fresh_window 100 9 109 Map.empty)\<lparr>num_retries := 60\<rparr>)
     = Raise ConsistencyViolation ((fresh_window 100 9 109 Map.empty)\<lparr>num_retries := 60\<rparr>)
   \<and> num_retries (final (users_iter 100 (usec 1000)
         \<lparr>count = 1, records = [\<lparr>item_id = 1, updated_at = 50\<rparr>]\<rparr>
         ((fresh_window 100 9 109 Map.empty)\<lparr>num_retries := 7\<rparr>))) = 0
   \<and> users_loop 60 (\<lambda>q s e. \<lparr>count = 1, records = [\<lparr>item_id = 1, updated_at = 5\<rparr>]\<rparr>)
         100 (usec 1000) (fresh_window 100 9 109 Map.empty) = None
   \<and> users_loop 61 (\<lambda>q s e. \<lparr>count = 1, records = [\<lparr>item_id = 1, updated_at = 5\<rparr>]\<rparr>)
         100 (usec 1000) (fresh_window 100 9 109 Map.empty)
       = Some (Raise ConsistencyViolation
           ((fresh_window 100 9 109 Map.empty)\<lparr>slept := 1800, num_retries := 60, queries := 61\<rparr>))"
proof -
  let ?bad = "\<lparr>count = 1, records = [\<lparr>item_id = 1, updated_at = 5\<rparr>]\<rparr>"
  let ?good = "\<lparr>count = 1, records = [\<lparr>item_id = 1, updated_at = 50\<rparr>]\<rparr>"
  let ?w = "fresh_window 100 9 109 Map.empty"
  have c: "count ?bad \<le> 1000" "count ?good \<le> 1000" by simp_all
  show ?thesis
    using users_consistency_guard [OF c(1), of ?w 100 "usec 1000" "\<lambda>q s e. ?bad"]
      users_consistency_guard [OF c(1), of "?w\<lparr>num_retries := 60\<rparr>" 100 "usec 1000" "\<lambda>q s e. ?bad"]
      users_consistency_guard [OF c(2), of "?w\<lparr>num_retries := 7\<rparr>" 100 "usec 1000" "\<lambda>q s e. ?good"]
    by (simp add: fresh_window_def usec_def)
qed

text \<open>
  Claim C4, on \<open>SatisfactionRatings.sync\<close>. The window that is queried ends at the
  earlier of \<open>end\<close> and the end of the sync (lines 347 and 348), but the test before the
  \<open>yield\<close> compares with \<open>end\<close> alone (lines 344 and 365). With the bookmark at 100,
  now at 1000 and the default window size, the query asks for the window from 100 to
  940; a rating with the timestamp 970 in the answer is emitted and moves the bookmark
  to 971. \<open>Users.sync\<close>, whose test uses the clipped end (lines 183 and 215), emits
  nothing on the same answer.
\<close>

theorem ratings_emitted_after_window_end:
  "ratings_sync (Suc 0)
      (\<lambda>q s e. \<lparr>count = 1, records = [\<lparr>item_id = 1, updated_at = 970\<rparr>]\<rparr>)
      None (usec 1000) [(''satisfaction_ratings'', ''updated_at'') \<mapsto> 100]
    = Some (Inr (Normal
        \<lparr>search_window_size = 2592000, start = 2592099, end_dt = 5184099, num_retries = 0,
         bookmarks = [(''satisfaction_ratings'', ''updated_at'') \<mapsto> 971],
         emitted = [\<lparr>item_id = 1, updated_at = 970\<rparr>], slept = 0, queries = 1\<rparr>))
   \<and> min (100 + DEFAULT_SEARCH_WINDOW_SIZE) (parsed (usec 1000 - usec 60)) = 940
   \<and> users_sync (Suc 0)
      (\<lambda>q s e. \<lparr>count = 1, records = [\<lparr>item_id = 1, updated_at = 970\<rparr>]\<rparr>)
      None (usec 1000) [(''users'', ''updated_at'') \<mapsto> 100]
    = Some (Inr (Normal
        \<lparr>search_window_size = 2592000, start = 2592098, end_dt = 5184098, num_retries = 0,
         bookmarks = [(''users'', ''updated_at'') \<mapsto> 941],
         emitted = [], slept = 0, queries = 1\<rparr>))"
  by (simp add: ratings_sync_def users_sync_def ratings_init_def users_init_def
      fresh_window_def plus_seconds_def datetime_min_def datetime_max_def
      configured_window_size_def DEFAULT_SEARCH_WINDOW_SIZE_def
      get_bookmark_def update_bookmark_def satisfaction_ratings_stream_def users_stream_def
      ratings_iter_def users_iter_def usec_def parsed_def Let_def)

section \<open>Halving and termination of the window loops\<close>

text \<open>
  Claim C2, on \<open>SatisfactionRatings.sync\<close>. With a window of one second and a
  response over the cap of 50000, the pass halves the window to zero seconds and goes
  on; the window stays at zero from then on, and against an endpoint that is over the
  cap on every query the sync never raises and never returns, whatever window size is
  configured (within the range of dates). \<open>Users.sync\<close> in the same situation
  raises.
\<close>

theorem ratings_window_has_no_floor:
  "ratings_iter 1 100 \<lparr>count = 50001, records = []\<rparr> (fresh_window 1 100 101 Map.empty)
     = Normal ((fresh_window 1 100 101 Map.empty)\<lparr>search_window_size := 0, end_dt := 100\<rparr>)
   \<and> ratings_iter 1 100 \<lparr>count = 50001, records = []\<rparr>
        ((fresh_window 1 100 101 Map.empty)\<lparr>search_window_size := 0, end_dt := 100\<rparr>)
     = Normal ((fresh_window 1 100 101 Map.empty)\<lparr>search_window_size := 0, end_dt := 100\<rparr>)
   \<and> (datetime_min \<le> 100 + configured_window_size cfg
        \<and> 100 + configured_window_size cfg \<le> datetime_max
      \<longrightarrow> ratings_sync fuel (\<lambda>q s e. \<lparr>count = 50001, records = []\<rparr>) cfg (usec 1000)
            [(''satisfaction_ratings'', ''updated_at'') \<mapsto> 100] = None)
   \<and> users_iter 1 (usec 940) \<lparr>count = 1001, records = []\<rparr> (fresh_window 1 99 100 Map.empty)
     = Raise CapacityExceeded (fresh_window 1 99 100 Map.empty)"
proof (intro conjI impI)
  show "ratings_iter 1 100 \<lparr>count = 50001, records = []\<rparr> (fresh_window 1 100 101 Map.empty)
     = Normal ((fresh_window 1 100 101 Map.empty)\<lparr>search_window_size := 0, end_dt := 100\<rparr>)"
    by (simp add: ratings_iter_def plus_seconds_def datetime_min_def datetime_max_def
        fresh_window_def)
  show "ratings_iter 1 100 \<lparr>count = 50001, records = []\<rparr>
        ((fresh_window 1 100 101 Map.empty)\<lparr>search_window_size := 0, end_dt := 100\<rparr>)
     = Normal ((fresh_window 1 100 101 Map.empty)\<lparr>search_window_size := 0, end_dt := 100\<rparr>)"
    by (simp add: ratings_iter_def plus_seconds_def datetime_min_def datetime_max_def
        fresh_window_def)
  show "users_iter 1 (usec 940) \<lparr>count = 1001, records = []\<rparr> (fresh_window 1 99 100 Map.empty)
     = Raise CapacityExceeded (fresh_window 1 99 100 Map.empty)"
    by (simp add: users_iter_def fresh_window_def)
next
  let ?orig = "configured_window_size cfg"
  let ?st = "[(''satisfaction_ratings'', ''updated_at'') \<mapsto> (100::int)]"
  assume r: "datetime_min \<le> 100 + ?orig \<and> 100 + ?orig \<le> datetime_max"
  then have init: "ratings_init ?orig 100 ?st = Inr (fresh_window ?orig 100 (100 + ?orig) ?st)"
    by (simp add: ratings_init_def plus_seconds_def)
  have "ratings_while fuel (\<lambda>q s e. \<lparr>count = 50001, records = []\<rparr>) ?orig 100
          (usec 1000 - usec 60) (fresh_window ?orig 100 (100 + ?orig) ?st) = None"
    by (rule ratings_while_spins)
       (use r in \<open>simp_all add: fresh_window_def usec_def datetime_min_def datetime_max_def\<close>)
  with init
  show "ratings_sync fuel (\<lambda>q s e. \<lparr>count = 50001, records = []\<rparr>) cfg (usec 1000)
        [(''satisfaction_ratings'', ''updated_at'') \<mapsto> 100] = None"
    by (simp add: ratings_sync_def get_bookmark_def satisfaction_ratings_stream_def)
qed

theorem ratings_window_has_no_floor_witness:
  "datetime_min \<le> 100 + configured_window_size (Some 1)
   \<and> 100 + configured_window_size (Some 1) \<le> datetime_max
   \<and> ratings_sync 1000 (\<lambda>q s e. \<lparr>count = 50001, records = []\<rparr>) (Some 1) (usec 1000)
        [(''satisfaction_ratings'', ''updated_at'') \<mapsto> 100] = None
   \<and> datetime_min \<le> 100 + configured_window_size None
   \<and> 100 + configured_window_size None \<le> datetime_max
   \<and> ratings_sync 1000 (\<lambda>q s e. \<lparr>count = 50001, records = []\<rparr>) None (usec 1000)
        [(''satisfaction_ratings'', ''updated_at'') \<mapsto> 100] = None"
proof -
  have r: "datetime_min \<le> 100 + configured_window_size (Some 1)"
    "100 + configured_window_size (Some 1) \<le> datetime_max"
    "datetime_min \<le> 100 + configured_window_size None"
    "100 + configured_window_size None \<le> datetime_max"
    by (simp_all add: configured_window_size_def DEFAULT_SEARCH_WINDOW_SIZE_def
        datetime_min_def datetime_max_def)
  show ?thesis
    using r ratings_window_has_no_floor [of "Some 1" 1000]
      ratings_window_has_no_floor [of None 1000]
    by simp
qed

text \<open>
  Claim C5. With \<open>search_window_size\<close> configured as 1, the bookmark at 100, now at
  1000 and an endpoint that answers every query with no record, neither window loop
  ends: \<open>start = end - 1\<close> is the \<open>start\<close> of the pass before, since \<open>end\<close> is
  \<open>start + 1\<close>, so no number of passes is enough for \<open>Users.sync\<close> or
  \<open>SatisfactionRatings.sync\<close> to return or to raise.
\<close>

theorem window_loop_stuck_at_one_second:
  "\<not> (\<exists>fuel r. users_sync fuel (\<lambda>q s e. \<lparr>count = 0, records = []\<rparr>) (Some 1) (usec 1000)
                  [(''users'', ''updated_at'') \<mapsto> 100] = Some r)
   \<and> \<not> (\<exists>fuel r. ratings_sync fuel (\<lambda>q s e. \<lparr>count = 0, records = []\<rparr>) (Some 1) (usec 1000)
                  [(''satisfaction_ratings'', ''updated_at'') \<mapsto> 100] = Some r)"
proof
  have "users_loop fuel (\<lambda>q s e. \<lparr>count = 0, records = []\<rparr>) 1 (usec 1000 - usec 60)
          (fresh_window 1 99 100 [(''users'', ''updated_at'') \<mapsto> 100]) = None" for fuel
    by (rule users_stuck [where b = 100])
       (simp_all add: fresh_window_def usec_def get_bookmark_def users_stream_def
          datetime_min_def datetime_max_def)
  then show "\<not> (\<exists>fuel r. users_sync fuel (\<lambda>q s e. \<lparr>count = 0, records = []\<rparr>) (Some 1)
                  (usec 1000) [(''users'', ''updated_at'') \<mapsto> 100] = Some r)"
    by (simp add: users_sync_def users_init_def plus_seconds_def datetime_min_def
        datetime_max_def configured_window_size_def get_bookmark_def users_stream_def)
  have "ratings_while fuel (\<lambda>q s e. \<lparr>count = 0, records = []\<rparr>) 1 100 (usec 1000 - usec 60)
          (fresh_window 1 100 101 [(''satisfaction_ratings'', ''updated_at'') \<mapsto> 100]) = None"
    for fuel
    by (rule ratings_stuck)
       (simp_all add: fresh_window_def usec_def datetime_min_def datetime_max_def)
  then show "\<not> (\<exists>fuel r. ratings_sync fuel (\<lambda>q s e. \<lparr>count = 0, records = []\<rparr>) (Some 1)
                  (usec 1000) [(''satisfaction_ratings'', ''updated_at'') \<mapsto> 100] = Some r)"
    by (simp add: ratings_sync_def ratings_init_def plus_seconds_def datetime_min_def
        datetime_max_def configured_window_size_def get_bookmark_def
        satisfaction_ratings_stream_def)
qed

text \<open>
  With a window of at least two seconds, dates that stay in range and an endpoint whose
  every answer is within the cap and has no record before the start asked for, both
  loops do end: as many passes as there are seconds between the first start and the
  end of the sync are enough.
\<close>

lemma window_loops_end_from_two_seconds:
  assumes "2 \<le> configured_window_size cfg"
    and "get_bookmark users_stream st = Inr b"
    and "get_bookmark satisfaction_ratings_stream st = Inr b'"
    and "\<forall>q s e. count (search q s e) \<le> 1000
                \<and> list_all (\<lambda>user. s \<le> updated_at user) (records (search q s e))"
    and "\<forall>q s e. count (client q s e) \<le> 50000
                \<and> list_all (\<lambda>r. s \<le> updated_at r) (records (client q s e))"
    and "datetime_min < b" and "datetime_min \<le> b'"
    and "b + configured_window_size cfg \<le> datetime_max"
    and "b' + configured_window_size cfg \<le> datetime_max"
    and "parsed (now - usec 60) + 2 * configured_window_size cfg \<le> datetime_max"
    and "(now - usec 60) - usec (b - 1) \<le> usec (int fuel)"
    and "(now - usec 60) - usec b' \<le> usec (int fuel)"
  shows "(\<exists>w'. users_sync fuel search cfg now st = Some (Inr (Normal w'))
              \<and> now - usec 60 \<le> usec (start w'))
       \<and> (\<exists>w'. ratings_sync fuel client cfg now st = Some (Inr (Normal w'))
              \<and> now - usec 60 \<le> usec (start w'))"
proof
  let ?orig = "configured_window_size cfg"
  have ok: "count (search q s e) \<le> 1000
                \<and> list_all (\<lambda>user. s \<le> updated_at user) (records (search q s e))" for q s e
    using assms(4) by blast
  have iu: "users_init ?orig b st = Inr (fresh_window ?orig (b - 1) (b - 1 + ?orig) st)"
    using assms(1,6,8) by (simp add: users_init_def plus_seconds_def)
  have "\<exists>w'. users_loop fuel search ?orig (now - usec 60)
               (fresh_window ?orig (b - 1) (b - 1 + ?orig) st) = Some (Normal w')
             \<and> now - usec 60 \<le> usec (start w')"
    by (rule users_loop_terminates [OF ok assms(1) assms(10), where b = b])
       (use assms(2,6,11) in \<open>simp_all add: fresh_window_def\<close>)
  then show "\<exists>w'. users_sync fuel search cfg now st = Some (Inr (Normal w'))
              \<and> now - usec 60 \<le> usec (start w')"
    using assms(2) iu by (auto simp: users_sync_def Let_def)
  have ok': "count (client q s e) \<le> 50000
                \<and> list_all (\<lambda>r. s \<le> updated_at r) (records (client q s e))" for q s e
    using assms(5) by blast
  have ir: "ratings_init ?orig b' st = Inr (fresh_window ?orig b' (b' + ?orig) st)"
    using assms(1,7,9) by (simp add: ratings_init_def plus_seconds_def)
  have "\<exists>w'. ratings_while fuel client ?orig b' (now - usec 60)
               (fresh_window ?orig b' (b' + ?orig) st) = Some (Normal w')
             \<and> now - usec 60 \<le> usec (start w')"
    by (rule ratings_while_terminates [OF ok' assms(1) assms(10), where b = b'])
       (use assms(3,7,12) in \<open>simp_all add: fresh_window_def\<close>)
  then show "\<exists>w'. ratings_sync fuel client cfg now st = Some (Inr (Normal w'))
              \<and> now - usec 60 \<le> usec (start w')"
    using assms(3) ir by (auto simp: ratings_sync_def Let_def)
qed

section \<open>Child expansion\<close>

lemma push_ticket_child_keeps:
  "push_ticket_child s tkt c x = Normal x' \<or> push_ticket_child s tkt c x = Raise e x'
   \<Longrightarrow> ids x' = ids x \<and> fetches x' = fetches x \<and> warnings x' = warnings x"
  by (auto simp: push_ticket_child_def Let_def split: sum.splits)

lemma push_all_keeps:
  "push_all s tkt cs x = Normal x' \<or> push_all s tkt cs x = Raise e x'
   \<Longrightarrow> ids x' = ids x \<and> fetches x' = fetches x"
proof (induction cs arbitrary: x)
  case Nil
  then show ?case by auto
next
  case (Cons c cs)
  show ?case
  proof (cases "push_ticket_child s tkt c x")
    case (Normal x1)
    with Cons.prems have "push_all s tkt cs x1 = Normal x' \<or> push_all s tkt cs x1 = Raise e x'"
      by simp
    from Cons.IH [OF this] push_ticket_child_keeps [of s tkt c x x1] Normal
    show ?thesis by simp
  next
    case (Raise e1 x1)
    with Cons.prems push_ticket_child_keeps [of s tkt c x x1 e1] show ?thesis by auto
  qed
qed

lemma push_ticket_child_bookmark:
  assumes "get_bookmark s (child_bookmarks x) = Inr b"
  shows "\<exists>x'. push_ticket_child s tkt c x = Normal x'
           \<and> children x' = children x @ [(c, generated_timestamp tkt)]
           \<and> get_bookmark s (child_bookmarks x')
               = Inr (if generated_timestamp tkt + 1 > b then generated_timestamp tkt + 2 else b)"
  using assms
  by (auto simp: push_ticket_child_def update_bookmark_def get_bookmark_def Let_def)

lemma push_all_bookmark:
  "get_bookmark s (child_bookmarks x) = Inr b
   \<Longrightarrow> \<exists>x'. push_all s tkt cs x = Normal x'
          \<and> children x' = children x @ map (\<lambda>c. (c, generated_timestamp tkt)) cs
          \<and> get_bookmark s (child_bookmarks x')
              = Inr (if cs \<noteq> [] \<and> generated_timestamp tkt + 1 > b
                     then generated_timestamp tkt + 2 else b)"
proof (induction cs arbitrary: x b)
  case Nil
  then show ?case by simp
next
  case (Cons c cs)
  from push_ticket_child_bookmark [OF Cons.prems, of tkt c]
  obtain x1 where p: "push_ticket_child s tkt c x = Normal x1"
    and ch: "children x1 = children x @ [(c, generated_timestamp tkt)]"
    and b1: "get_bookmark s (child_bookmarks x1)
               = Inr (if generated_timestamp tkt + 1 > b then generated_timestamp tkt + 2 else b)"
    by blast
  from Cons.IH [OF b1]
  obtain x' where "push_all s tkt cs x1 = Normal x'"
    and "children x' = children x1 @ map (\<lambda>c. (c, generated_timestamp tkt)) cs"
    and "get_bookmark s (child_bookmarks x')
           = Inr (if cs \<noteq> [] \<and> generated_timestamp tkt + 1
                       > (if generated_timestamp tkt + 1 > b then generated_timestamp tkt + 2 else b)
                  then generated_timestamp tkt + 2
                  else (if generated_timestamp tkt + 1 > b then generated_timestamp tkt + 2 else b))"
    by blast
  with p ch show ?case by (auto split: if_splits)
qed

lemma guarded_loop_fetches:
  "guarded_loop s fetch ts x = Normal x' \<or> guarded_loop s fetch ts x = Raise e x'
   \<Longrightarrow> \<exists>new. fetches x' = fetches x @ new
          \<and> list_all (\<lambda>t. status t \<noteq> ''deleted'' \<and> t \<in> set ts) new"
proof (induction ts arbitrary: x)
  case Nil
  then show ?case by auto
next
  case (Cons t ts)
  show ?case
  proof (cases "status t \<noteq> ''deleted'' \<and> ticket_id t \<notin> set (ids x)")
    case False
    with Cons.prems have "guarded_loop s fetch ts x = Normal x' \<or> guarded_loop s fetch ts x = Raise e x'"
      by auto
    from Cons.IH [OF this] show ?thesis by (auto simp: list_all_iff)
  next
    case guard: True
    show ?thesis
    proof (cases "fetch (ticket_id t)")
      case (Inl err)
      with guard Cons.prems show ?thesis by auto
    next
      case (Inr cs)
      let ?x1 = "x\<lparr>ids := ids x @ [ticket_id t], fetches := fetches x @ [t]\<rparr>"
      show ?thesis
      proof (cases "push_all s t cs ?x1")
        case (Raise e1 x1)
        with guard Inr Cons.prems have "x' = x1" by auto
        with push_all_keeps [of s t cs ?x1 x1 e1] Raise guard show ?thesis by auto
      next
        case (Normal x1)
        with guard Inr Cons.prems
        have "guarded_loop s fetch ts x1 = Normal x' \<or> guarded_loop s fetch ts x1 = Raise e x'"
          by auto
        from Cons.IH [OF this] obtain new where "fetches x' = fetches x1 @ new"
          "list_all (\<lambda>t. status t \<noteq> ''deleted'' \<and> t \<in> set ts) new" by blast
        moreover from push_all_keeps [of s t cs ?x1 x1 e] Normal
        have "fetches x1 = fetches x @ [t]" by simp
        ultimately show ?thesis using guard by (auto simp: list_all_iff)
      qed
    qed
  qed
qed

lemma guarded_loop_distinct:
  "distinct (map ticket_id (fetches x)) \<Longrightarrow> ticket_id ` set (fetches x) \<subseteq> set (ids x)
   \<Longrightarrow> guarded_loop s fetch ts x = Normal x' \<or> guarded_loop s fetch ts x = Raise e x'
   \<Longrightarrow> distinct (map ticket_id (fetches x'))"
proof (induction ts arbitrary: x)
  case Nil
  then show ?case by auto
next
  case (Cons t ts)
  show ?case
  proof (cases "status t \<noteq> ''deleted'' \<and> ticket_id t \<notin> set (ids x)")
    case False
    with Cons.prems(3)
    have "guarded_loop s fetch ts x = Normal x' \<or> guarded_loop s fetch ts x = Raise e x'"
      by auto
    from Cons.IH [OF Cons.prems(1,2) this] show ?thesis .
  next
    case guard: True
    let ?x1 = "x\<lparr>ids := ids x @ [ticket_id t], fetches := fetches x @ [t]\<rparr>"
    have d1: "distinct (map ticket_id (fetches x @ [t]))"
      using Cons.prems(1,2) guard by auto
    show ?thesis
    proof (cases "fetch (ticket_id t)")
      case (Inl err)
      with guard Cons.prems(3) d1 show ?thesis by auto
    next
      case (Inr cs)
      show ?thesis
      proof (cases "push_all s t cs ?x1")
        case (Raise e1 x1)
        with guard Inr Cons.prems(3) have "x' = x1" by auto
        with push_all_keeps [of s t cs ?x1 x1 e1] Raise d1 show ?thesis by auto
      next
        case (Normal x1)
        from push_all_keeps [of s t cs ?x1 x1 e] Normal
        have k: "ids x1 = ids x @ [ticket_id t]" "fetches x1 = fetches x @ [t]" by simp_all
        have "distinct (map ticket_id (fetches x1))" using k d1 by simp
        moreover have "ticket_id ` set (fetches x1) \<subseteq> set (ids x1)"
          using k Cons.prems(2) by auto
        moreover from Normal guard Inr Cons.prems(3)
        have "guarded_loop s fetch ts x1 = Normal x' \<or> guarded_loop s fetch ts x1 = Raise e x'"
          by auto
        ultimately show ?thesis by (rule Cons.IH)
      qed
    qed
  qed
qed

lemma metrics_loop_step:
  assumes "ticket_id t \<notin> set (ids x)"
  shows "\<exists>x2. metrics_loop fetch (t # ts) x = metrics_loop fetch ts x2
           \<and> ids x2 = ids x @ [ticket_id t] \<and> fetches x2 = fetches x @ [t]"
proof (cases "fetch (ticket_id t)")
  case (Inl err)
  let ?x2 = "x\<lparr>ids := ids x @ [ticket_id t], fetches := fetches x @ [t],
                warnings := Suc (warnings x)\<rparr>"
  have "metrics_loop fetch (t # ts) x = metrics_loop fetch ts ?x2"
    using assms Inl by (simp add: Let_def)
  moreover have "ids ?x2 = ids x @ [ticket_id t]" "fetches ?x2 = fetches x @ [t]" by simp_all
  ultimately show ?thesis by blast
next
  case (Inr m)
  let ?x1 = "x\<lparr>ids := ids x @ [ticket_id t], fetches := fetches x @ [t]\<rparr>"
  show ?thesis
  proof (cases "push_ticket_child ticket_metrics_stream t m ?x1")
    case (Normal x1)
    have "metrics_loop fetch (t # ts) x = metrics_loop fetch ts x1"
      using assms Inr Normal by (simp add: Let_def)
    with push_ticket_child_keeps [of ticket_metrics_stream t m ?x1 x1] Normal
    show ?thesis by auto
  next
    case (Raise e1 x1)
    let ?x2 = "x1\<lparr>warnings := warnings x1 + 1\<rparr>"
    have "metrics_loop fetch (t # ts) x = metrics_loop fetch ts ?x2"
      using assms Inr Raise by (simp add: Let_def)
    moreover from push_ticket_child_keeps [of ticket_metrics_stream t m ?x1 x1 e1] Raise
    have "ids ?x2 = ids x @ [ticket_id t]" "fetches ?x2 = fetches x @ [t]" by simp_all
    ultimately show ?thesis by blast
  qed
qed

lemma metrics_loop_distinct:
  "distinct (map ticket_id (fetches x)) \<Longrightarrow> ticket_id ` set (fetches x) \<subseteq> set (ids x)
   \<Longrightarrow> \<exists>x'. metrics_loop fetch ts x = Normal x' \<and> distinct (map ticket_id (fetches x'))"
proof (induction ts arbitrary: x)
  case Nil
  then show ?case by simp
next
  case (Cons t ts)
  show ?case
  proof (cases "ticket_id t \<notin> set (ids x)")
    case False
    with Cons.IH [OF Cons.prems] show ?thesis by simp
  next
    case new: True
    from metrics_loop_step [OF new, of fetch ts]
    obtain x2 where st: "metrics_loop fetch (t # ts) x = metrics_loop fetch ts x2"
      and k: "ids x2 = ids x @ [ticket_id t]" "fetches x2 = fetches x @ [t]" by blast
    have "distinct (map ticket_id (fetches x2))" using k Cons.prems new by auto
    moreover have "ticket_id ` set (fetches x2) \<subseteq> set (ids x2)" using k Cons.prems by auto
    ultimately show ?thesis unfolding st by (rule Cons.IH)
  qed
qed

lemma guarded_loop_single:
  assumes live: "status tkt \<noteq> ''deleted''"
    and bm: "get_bookmark s st = Inr b"
    and fetch: "fetch (ticket_id tkt) = Inr (cs :: 'c list)"
  shows "\<exists>x. guarded_loop s fetch [tkt] (expansion_init st) = Normal x
           \<and> fetches x = [tkt]
           \<and> children x = map (\<lambda>c. (c, generated_timestamp tkt)) cs
           \<and> get_bookmark s (child_bookmarks x)
               = Inr (if cs \<noteq> [] \<and> generated_timestamp tkt + 1 > b
                      then generated_timestamp tkt + 2 else b)"
proof -
  let ?x1 = "\<lparr>ids = [ticket_id tkt], child_bookmarks = st, children = [] :: ('c \<times> int) list,
              fetches = [tkt], warnings = 0\<rparr>"
  have "get_bookmark s (child_bookmarks ?x1) = Inr b"
    using bm by (simp add: expansion_init_def)
  from push_all_bookmark [OF this, of tkt cs]
  obtain x' where p: "push_all s tkt cs ?x1 = Normal x'"
    and ch: "children x' = children ?x1 @ map (\<lambda>c. (c, generated_timestamp tkt)) cs"
    and b': "get_bookmark s (child_bookmarks x')
              = Inr (if cs \<noteq> [] \<and> generated_timestamp tkt + 1 > b
                     then generated_timestamp tkt + 2 else b)"
    by blast
  from push_all_keeps [of s tkt cs ?x1 x'] p
  have f: "fetches x' = [tkt]" by (simp add: expansion_init_def)
  have "guarded_loop s fetch [tkt] (expansion_init st) = Normal x'"
    using live fetch p by (simp add: expansion_init_def)
  with f ch b' show ?thesis by (simp add: expansion_init_def)
qed

lemma metrics_loop_single:
  assumes bm: "get_bookmark ticket_metrics_stream st = Inr b"
    and fetch: "fetch (ticket_id tkt) = Inr (m :: 'c)"
  shows "\<exists>x. metrics_loop fetch [tkt] (expansion_init st) = Normal x
           \<and> fetches x = [tkt]
           \<and> children x = [(m, generated_timestamp tkt)]
           \<and> get_bookmark ticket_metrics_stream (child_bookmarks x)
               = Inr (if generated_timestamp tkt + 1 > b then generated_timestamp tkt + 2 else b)"
proof -
  let ?x1 = "\<lparr>ids = [ticket_id tkt], child_bookmarks = st, children = [] :: ('c \<times> int) list,
              fetches = [tkt], warnings = 0\<rparr>"
  have "get_bookmark ticket_metrics_stream (child_bookmarks ?x1) = Inr b"
    using bm by (simp add: expansion_init_def)
  from push_ticket_child_bookmark [OF this, of tkt m]
  obtain x' where p: "push_ticket_child ticket_metrics_stream tkt m ?x1 = Normal x'"
    and ch: "children x' = children ?x1 @ [(m, generated_timestamp tkt)]"
    and b': "get_bookmark ticket_metrics_stream (child_bookmarks x')
              = Inr (if generated_timestamp tkt + 1 > b then generated_timestamp tkt + 2 else b)"
    by blast
  from push_ticket_child_keeps [of ticket_metrics_stream tkt m ?x1 x'] p
  have f: "fetches x' = [tkt]" by (simp add: expansion_init_def)
  have "metrics_loop fetch [tkt] (expansion_init st) = Normal x'"
    using fetch p by (simp add: expansion_init_def Let_def)
  with f ch b' show ?thesis by (simp add: expansion_init_def)
qed

text \<open>
  Claim C6. For a listing of one ticket that is not deleted, with the child stream's
  bookmark at or before the ticket's \<open>generated_timestamp\<close> and a fetch that gives
  at least one child, each child stream sends exactly one fetch, for that ticket, and
  ends with its bookmark at the \<open>generated_timestamp\<close> plus two seconds: one second
  is added in \<open>push_ticket_child\<close> and one more in \<open>update_bookmark\<close>.
\<close>

theorem child_bookmark_is_parent_plus_two:
  assumes "status tkt \<noteq> ''deleted''"
    and "cs \<noteq> []"
    and "b \<le> generated_timestamp tkt"
    and "get_bookmark ticket_audits_stream st = Inr b"
    and "get_bookmark ticket_comments_stream st = Inr b"
    and "get_bookmark ticket_metrics_stream st = Inr b"
    and "incremental b = [tkt]"
    and "fetch_list (ticket_id tkt) = Inr cs"
    and "fetch_one (ticket_id tkt) = Inr m"
  shows "(\<exists>x. ticket_audits_sync incremental fetch_list st = Inr (Normal x)
             \<and> fetches x = [tkt]
             \<and> get_bookmark ticket_audits_stream (child_bookmarks x)
                 = Inr (generated_timestamp tkt + 2))
       \<and> (\<exists>x. ticket_comments_sync incremental fetch_list st = Inr (Normal x)
             \<and> fetches x = [tkt]
             \<and> get_bookmark ticket_comments_stream (child_bookmarks x)
                 = Inr (generated_timestamp tkt + 2))
       \<and> (\<exists>x. ticket_metrics_sync incremental fetch_one st = Inr (Normal x)
             \<and> fetches x = [tkt]
             \<and> get_bookmark ticket_metrics_stream (child_bookmarks x)
                 = Inr (generated_timestamp tkt + 2))"
proof (intro conjI)
  from guarded_loop_single [where s = ticket_audits_stream and fetch = fetch_list, OF assms(1) assms(4) assms(8)]
    assms(2,3,4,7)
  show "\<exists>x. ticket_audits_sync incremental fetch_list st = Inr (Normal x)
             \<and> fetches x = [tkt]
             \<and> get_bookmark ticket_audits_stream (child_bookmarks x)
                 = Inr (generated_timestamp tkt + 2)"
    by (auto simp: ticket_audits_sync_def)
  from guarded_loop_single [where s = ticket_comments_stream and fetch = fetch_list, OF assms(1) assms(5) assms(8)]
    assms(2,3,5,7)
  show "\<exists>x. ticket_comments_sync incremental fetch_list st = Inr (Normal x)
             \<and> fetches x = [tkt]
             \<and> get_bookmark ticket_comments_stream (child_bookmarks x)
                 = Inr (generated_timestamp tkt + 2)"
    by (auto simp: ticket_comments_sync_def)
  from metrics_loop_single [where fetch = fetch_one, OF assms(6) assms(9)] assms(3,6,7)
  show "\<exists>x. ticket_metrics_sync incremental fetch_one st = Inr (Normal x)
             \<and> fetches x = [tkt]
             \<and> get_bookmark ticket_metrics_stream (child_bookmarks x)
                 = Inr (generated_timestamp tkt + 2)"
    by (auto simp: ticket_metrics_sync_def)
qed

theorem child_bookmark_is_parent_plus_two_witness:
  "(\<exists>x. ticket_audits_sync
            (\<lambda>b. [\<lparr>ticket_id = 42, status = ''open'', generated_timestamp = 1609459200\<rparr>])
            (\<lambda>i. Inr [0::nat])
            [(''ticket_audits'', ''ticket_generated_timestamp'') \<mapsto> 1577836800,
             (''ticket_comments'', ''ticket_generated_timestamp'') \<mapsto> 1577836800,
             (''ticket_metrics'', ''ticket_generated_timestamp'') \<mapsto> 1577836800]
          = Inr (Normal x)
        \<and> fetches x = [\<lparr>ticket_id = 42, status = ''open'', generated_timestamp = 1609459200\<rparr>]
        \<and> get_bookmark ticket_audits_stream (child_bookmarks x) = Inr 1609459202)
   \<and> (\<exists>x. ticket_comments_sync
            (\<lambda>b. [\<lparr>ticket_id = 42, status = ''open'', generated_timestamp = 1609459200\<rparr>])
            (\<lambda>i. Inr [0::nat])
            [(''ticket_audits'', ''ticket_generated_timestamp'') \<mapsto> 1577836800,
             (''ticket_comments'', ''ticket_generated_timestamp'') \<mapsto> 1577836800,
             (''ticket_metrics'', ''ticket_generated_timestamp'') \<mapsto> 1577836800]
          = Inr (Normal x)
        \<and> fetches x = [\<lparr>ticket_id = 42, status = ''open'', generated_timestamp = 1609459200\<rparr>]
        \<and> get_bookmark ticket_comments_stream (child_bookmarks x) = Inr 1609459202)
   \<and> (\<exists>x. ticket_metrics_sync
            (\<lambda>b. [\<lparr>ticket_id = 42, status = ''open'', generated_timestamp = 1609459200\<rparr>])
            (\<lambda>i. Inr (0::nat))
            [(''ticket_audits'', ''ticket_generated_timestamp'') \<mapsto> 1577836800,
             (''ticket_comments'', ''ticket_generated_timestamp'') \<mapsto> 1577836800,
             (''ticket_metrics'', ''ticket_generated_timestamp'') \<mapsto> 1577836800]
          = Inr (Normal x)
        \<and> fetches x = [\<lparr>ticket_id = 42, status = ''open'', generated_timestamp = 1609459200\<rparr>]
        \<and> get_bookmark ticket_metrics_stream (child_bookmarks x) = Inr 1609459202)"
proof -
  let ?t = "\<lparr>ticket_id = 42, status = ''open'', generated_timestamp = 1609459200\<rparr>"
  let ?st = "[(''ticket_audits'', ''ticket_generated_timestamp'') \<mapsto> (1577836800::int),
              (''ticket_comments'', ''ticket_generated_timestamp'') \<mapsto> 1577836800,
              (''ticket_metrics'', ''ticket_generated_timestamp'') \<mapsto> 1577836800]"
  have live: "status ?t \<noteq> ''deleted''" by simp
  have ne: "[0::nat] \<noteq> []" by simp
  have le: "1577836800 \<le> generated_timestamp ?t" by simp
  have ba: "get_bookmark ticket_audits_stream ?st = Inr 1577836800"
    by (simp add: get_bookmark_def ticket_audits_stream_def)
  have bc: "get_bookmark ticket_comments_stream ?st = Inr 1577836800"
    by (simp add: get_bookmark_def ticket_comments_stream_def)
  have bm: "get_bookmark ticket_metrics_stream ?st = Inr 1577836800"
    by (simp add: get_bookmark_def ticket_metrics_stream_def)
  have l: "(\<lambda>b::int. [?t]) 1577836800 = [?t]" by simp
  have f: "(\<lambda>i::int. Inr [0::nat] :: error + nat list) (ticket_id ?t) = Inr [0]" by simp
  have g: "(\<lambda>i::int. Inr (0::nat) :: error + nat) (ticket_id ?t) = Inr 0" by simp
  show ?thesis
    using child_bookmark_is_parent_plus_two [OF live ne le ba bc bm l f g]
    by simp
qed

theorem child_bookmark_is_not_parent_plus_one:
  "ticket_audits_sync
     (\<lambda>b. [\<lparr>ticket_id = 42, status = ''open'', generated_timestamp = 1609459200\<rparr>])
     (\<lambda>i. Inr [0::nat])
     [(''ticket_audits'', ''ticket_generated_timestamp'') \<mapsto> 1577836800]
   = Inr (Normal
       \<lparr>ids = [42],
        child_bookmarks = [(''ticket_audits'', ''ticket_generated_timestamp'') \<mapsto> 1609459202],
        children = [(0, 1609459200)],
        fetches = [\<lparr>ticket_id = 42, status = ''open'', generated_timestamp = 1609459200\<rparr>],
        warnings = 0\<rparr>)
   \<and> get_bookmark ticket_audits_stream
         [(''ticket_audits'', ''ticket_generated_timestamp'') \<mapsto> 1609459202]
       \<noteq> Inr 1609459201"
  by (simp add: ticket_audits_sync_def get_bookmark_def ticket_audits_stream_def
      expansion_init_def push_ticket_child_def update_bookmark_def)


lemma guarded_loop_final_fetches:
  "list_all (\<lambda>t. status t \<noteq> ''deleted'')
     (fetches (final (guarded_loop s fetch ts (expansion_init st))))"
proof (cases "guarded_loop s fetch ts (expansion_init st)")
  case (Normal x')
  from guarded_loop_fetches [of s fetch ts "expansion_init st" x'] Normal
  show ?thesis by (auto simp: expansion_init_def list_all_iff)
next
  case (Raise e x')
  from guarded_loop_fetches [of s fetch ts "expansion_init st" x' e] Raise
  show ?thesis by (auto simp: expansion_init_def list_all_iff)
qed

text \<open>
  Claim C7. In \<open>TicketAudits.sync\<close> and \<open>TicketComments.sync\<close>, every ticket for
  which a child fetch was sent has a status other than \<open>deleted\<close>, however the run
  ends. (\<open>TicketMetrics.sync\<close> does not test the status.)
\<close>

theorem deleted_parents_not_fetched:
  assumes "ticket_audits_sync incremental audits st = Inr r"
    and "ticket_comments_sync incremental' comments st' = Inr r'"
  shows "list_all (\<lambda>t. status t \<noteq> ''deleted'') (fetches (final r))
       \<and> list_all (\<lambda>t. status t \<noteq> ''deleted'') (fetches (final r'))"
proof
  from assms(1) obtain b where
    "r = guarded_loop ticket_audits_stream audits (incremental b) (expansion_init st)"
    by (auto simp: ticket_audits_sync_def split: sum.splits)
  then show "list_all (\<lambda>t. status t \<noteq> ''deleted'') (fetches (final r))"
    using guarded_loop_final_fetches by simp
  from assms(2) obtain b' where
    "r' = guarded_loop ticket_comments_stream comments (incremental' b') (expansion_init st')"
    by (auto simp: ticket_comments_sync_def split: sum.splits)
  then show "list_all (\<lambda>t. status t \<noteq> ''deleted'') (fetches (final r'))"
    using guarded_loop_final_fetches by simp
qed

theorem deleted_parents_not_fetched_witness:
  "ticket_audits_sync
      (\<lambda>b. [\<lparr>ticket_id = 7, status = ''deleted'', generated_timestamp = 50\<rparr>,
             \<lparr>ticket_id = 8, status = ''open'', generated_timestamp = 60\<rparr>])
      (\<lambda>i. Inr [0::nat])
      [(''ticket_audits'', ''ticket_generated_timestamp'') \<mapsto> 10]
    = Inr (Normal
        \<lparr>ids = [8],
         child_bookmarks = [(''ticket_audits'', ''ticket_generated_timestamp'') \<mapsto> 62],
         children = [(0, 60)],
         fetches = [\<lparr>ticket_id = 8, status = ''open'', generated_timestamp = 60\<rparr>],
         warnings = 0\<rparr>)
   \<and> ticket_comments_sync
      (\<lambda>b. [\<lparr>ticket_id = 7, status = ''deleted'', generated_timestamp = 50\<rparr>])
      (\<lambda>i. Inr [0::nat])
      [(''ticket_comments'', ''ticket_generated_timestamp'') \<mapsto> 10]
    = Inr (Normal
        \<lparr>ids = [],
         child_bookmarks = [(''ticket_comments'', ''ticket_generated_timestamp'') \<mapsto> 10],
         children = [],
         fetches = [],
         warnings = 0\<rparr>)
   \<and> list_all (\<lambda>t. status t \<noteq> ''deleted'')
        [\<lparr>ticket_id = 8, status = ''open'', generated_timestamp = 60\<rparr>]
   \<and> list_all (\<lambda>t. status t \<noteq> ''deleted'') ([] :: ticket list)"
proof -
  have a: "ticket_audits_sync
      (\<lambda>b. [\<lparr>ticket_id = 7, status = ''deleted'', generated_timestamp = 50\<rparr>,
             \<lparr>ticket_id = 8, status = ''open'', generated_timestamp = 60\<rparr>])
      (\<lambda>i. Inr [0::nat])
      [(''ticket_audits'', ''ticket_generated_timestamp'') \<mapsto> 10]
    = Inr (Normal
        \<lparr>ids = [8],
         child_bookmarks = [(''ticket_audits'', ''ticket_generated_timestamp'') \<mapsto> 62],
         children = [(0, 60)],
         fetches = [\<lparr>ticket_id = 8, status = ''open'', generated_timestamp = 60\<rparr>],
         warnings = 0\<rparr>)"
    by (simp add: ticket_audits_sync_def get_bookmark_def ticket_audits_stream_def
        expansion_init_def push_ticket_child_def update_bookmark_def)
  have c: "ticket_comments_sync
      (\<lambda>b. [\<lparr>ticket_id = 7, status = ''deleted'', generated_timestamp = 50\<rparr>])
      (\<lambda>i. Inr [0::nat])
      [(''ticket_comments'', ''ticket_generated_timestamp'') \<mapsto> 10]
    = Inr (Normal
        \<lparr>ids = [],
         child_bookmarks = [(''ticket_comments'', ''ticket_generated_timestamp'') \<mapsto> 10],
         children = [],
         fetches = [],
         warnings = 0\<rparr>)"
    by (simp add: ticket_comments_sync_def get_bookmark_def ticket_comments_stream_def
        expansion_init_def)
  from deleted_parents_not_fetched [OF a c] a c show ?thesis by simp
qed

theorem metrics_fetches_deleted_parent:
  "ticket_metrics_sync
      (\<lambda>b. [\<lparr>ticket_id = 7, status = ''deleted'', generated_timestamp = 50\<rparr>])
      (\<lambda>i. Inr (0::nat))
      [(''ticket_metrics'', ''ticket_generated_timestamp'') \<mapsto> 10]
    = Inr (Normal
        \<lparr>ids = [7],
         child_bookmarks = [(''ticket_metrics'', ''ticket_generated_timestamp'') \<mapsto> 52],
         children = [(0, 50)],
         fetches = [\<lparr>ticket_id = 7, status = ''deleted'', generated_timestamp = 50\<rparr>],
         warnings = 0\<rparr>)"
  by (simp add: ticket_metrics_sync_def get_bookmark_def ticket_metrics_stream_def
      expansion_init_def push_ticket_child_def update_bookmark_def Let_def)

lemma metrics_loop_covers:
  "\<exists>x'. metrics_loop fetch ts x = Normal x'
       \<and> set (ids x) \<union> ticket_id ` set ts \<subseteq> set (ids x')"
proof (induction ts arbitrary: x)
  case Nil
  then show ?case by simp
next
  case (Cons t ts)
  show ?case
  proof (cases "ticket_id t \<notin> set (ids x)")
    case False
    from Cons.IH [of x] obtain x' where "metrics_loop fetch ts x = Normal x'"
      "set (ids x) \<union> ticket_id ` set ts \<subseteq> set (ids x')" by blast
    with False show ?thesis by auto
  next
    case new: True
    from metrics_loop_step [OF new, of fetch ts]
    obtain x2 where st: "metrics_loop fetch (t # ts) x = metrics_loop fetch ts x2"
      and k: "ids x2 = ids x @ [ticket_id t]" by blast
    from Cons.IH [of x2] obtain x' where "metrics_loop fetch ts x2 = Normal x'"
      "set (ids x2) \<union> ticket_id ` set ts \<subseteq> set (ids x')" by blast
    with st k show ?thesis by auto
  qed
qed

lemma metrics_fetch_failure_is_skipped:
  assumes "metrics (ticket_id t) = Inl e" and "ticket_id t \<notin> set (ids y)"
  shows "metrics_loop metrics (t # ts) y
           = metrics_loop metrics ts
               (y\<lparr>ids := ids y @ [ticket_id t], fetches := fetches y @ [t],
                  warnings := warnings y + 1\<rparr>)"
  using assms by (simp add: Let_def)

lemma metrics_sync_never_raises:
  assumes "get_bookmark ticket_metrics_stream st = Inr b"
  shows "\<exists>x. ticket_metrics_sync incremental metrics st = Inr (Normal x)
           \<and> ticket_id ` set (incremental b) \<subseteq> set (ids x)"
  using metrics_loop_covers [of metrics "incremental b" "expansion_init st"] assms
  by (auto simp: ticket_metrics_sync_def)

lemma guarded_fetch_failure_raises:
  assumes "fetch (ticket_id t) = Inl e" and "status t \<noteq> ''deleted''"
    and "ticket_id t \<notin> set (ids z)"
  shows "guarded_loop s fetch (t # ts) z = Raise e (z\<lparr>fetches := fetches z @ [t]\<rparr>)"
  using assms by simp

text \<open>
  Claim C8, on \<open>TicketAudits.sync\<close> and \<open>TicketComments.sync\<close>. With two open tickets
  listed and a client whose child fetch raises for the first, both syncs end with that
  exception: nothing is caught, the second ticket is never fetched for and nothing is
  emitted. \<open>TicketMetrics.sync\<close>, which has the same call inside \<open>try\<close> and
  \<open>except Exception\<close>, logs a warning for the first ticket and goes on to the second.
\<close>

theorem audits_fetch_failure_aborts:
  "ticket_audits_sync
      (\<lambda>b. [\<lparr>ticket_id = 1, status = ''open'', generated_timestamp = 50\<rparr>,
             \<lparr>ticket_id = 2, status = ''open'', generated_timestamp = 60\<rparr>])
      (\<lambda>i. if i = 1 then Inl FetchError else Inr [0::nat])
      [(''ticket_audits'', ''ticket_generated_timestamp'') \<mapsto> 10]
    = Inr (Raise FetchError
        \<lparr>ids = [],
         child_bookmarks = [(''ticket_audits'', ''ticket_generated_timestamp'') \<mapsto> 10],
         children = [],
         fetches = [\<lparr>ticket_id = 1, status = ''open'', generated_timestamp = 50\<rparr>],
         warnings = 0\<rparr>)
   \<and> ticket_comments_sync
      (\<lambda>b. [\<lparr>ticket_id = 1, status = ''open'', generated_timestamp = 50\<rparr>,
             \<lparr>ticket_id = 2, status = ''open'', generated_timestamp = 60\<rparr>])
      (\<lambda>i. if i = 1 then Inl FetchError else Inr [0::nat])
      [(''ticket_comments'', ''ticket_generated_timestamp'') \<mapsto> 10]
    = Inr (Raise FetchError
        \<lparr>ids = [],
         child_bookmarks = [(''ticket_comments'', ''ticket_generated_timestamp'') \<mapsto> 10],
         children = [],
         fetches = [\<lparr>ticket_id = 1, status = ''open'', generated_timestamp = 50\<rparr>],
         warnings = 0\<rparr>)
   \<and> ticket_metrics_sync
      (\<lambda>b. [\<lparr>ticket_id = 1, status = ''open'', generated_timestamp = 50\<rparr>,
             \<lparr>ticket_id = 2, status = ''open'', generated_timestamp = 60\<rparr>])
      (\<lambda>i. if i = 1 then Inl FetchError else Inr (0::nat))
      [(''ticket_metrics'', ''ticket_generated_timestamp'') \<mapsto> 10]
    = Inr (Normal
        \<lparr>ids = [1, 2],
         child_bookmarks = [(''ticket_metrics'', ''ticket_generated_timestamp'') \<mapsto> 62],
         children = [(0, 60)],
         fetches = [\<lparr>ticket_id = 1, status = ''open'', generated_timestamp = 50\<rparr>,
                    \<lparr>ticket_id = 2, status = ''open'', generated_timestamp = 60\<rparr>],
         warnings = 1\<rparr>)"
  by (simp add: ticket_audits_sync_def ticket_comments_sync_def ticket_metrics_sync_def
      get_bookmark_def ticket_audits_stream_def ticket_comments_stream_def
      ticket_metrics_stream_def expansion_init_def push_ticket_child_def
      update_bookmark_def Let_def)

lemma guarded_loop_final_distinct:
  "distinct (map ticket_id (fetches (final (guarded_loop s fetch ts (expansion_init st)))))"
proof (cases "guarded_loop s fetch ts (expansion_init st)")
  case (Normal x')
  have "distinct (map ticket_id (fetches x'))"
    by (rule guarded_loop_distinct [of "expansion_init st" s fetch ts x'])
       (use Normal in \<open>simp_all add: expansion_init_def\<close>)
  with Normal show ?thesis by simp
next
  case (Raise e x')
  have "distinct (map ticket_id (fetches x'))"
    by (rule guarded_loop_distinct [of "expansion_init st" s fetch ts x' e])
       (use Raise in \<open>simp_all add: expansion_init_def\<close>)
  with Raise show ?thesis by simp
qed

lemma metrics_loop_final_distinct:
  "distinct (map ticket_id (fetches (final (metrics_loop fetch ts (expansion_init st)))))"
proof -
  have "\<exists>x'. metrics_loop fetch ts (expansion_init st) = Normal x'
          \<and> distinct (map ticket_id (fetches x'))"
    by (rule metrics_loop_distinct) (simp_all add: expansion_init_def)
  then show ?thesis by auto
qed

text \<open>
  Claim C9. In each of the three child streams, however often a ticket id occurs in
  the listing of the run, at most one child fetch is sent for it: the ids of the
  tickets fetched for are pairwise distinct, however the run ends.
\<close>

theorem child_fetch_at_most_once:
  assumes "ticket_audits_sync incremental audits st = Inr r"
    and "ticket_comments_sync incremental' comments st' = Inr r'"
    and "ticket_metrics_sync incremental'' metrics st'' = Inr r''"
  shows "distinct (map ticket_id (fetches (final r)))
       \<and> distinct (map ticket_id (fetches (final r')))
       \<and> distinct (map ticket_id (fetches (final r'')))"
proof (intro conjI)
  from assms(1) obtain b where
    "r = guarded_loop ticket_audits_stream audits (incremental b) (expansion_init st)"
    by (auto simp: ticket_audits_sync_def split: sum.splits)
  then show "distinct (map ticket_id (fetches (final r)))"
    using guarded_loop_final_distinct by simp
  from assms(2) obtain b' where
    "r' = guarded_loop ticket_comments_stream comments (incremental' b') (expansion_init st')"
    by (auto simp: ticket_comments_sync_def split: sum.splits)
  then show "distinct (map ticket_id (fetches (final r')))"
    using guarded_loop_final_distinct by simp
  from assms(3) obtain b'' where
    "r'' = metrics_loop metrics (incremental'' b'') (expansion_init st'')"
    by (auto simp: ticket_metrics_sync_def split: sum.splits)
  then show "distinct (map ticket_id (fetches (final r'')))"
    using metrics_loop_final_distinct by simp
qed

theorem child_fetch_at_most_once_witness:
  "ticket_audits_sync
      (\<lambda>b. [\<lparr>ticket_id = 1, status = ''open'', generated_timestamp = 50\<rparr>,
             \<lparr>ticket_id = 1, status = ''open'', generated_timestamp = 50\<rparr>,
             \<lparr>ticket_id = 3, status = ''deleted'', generated_timestamp = 60\<rparr>,
             \<lparr>ticket_id = 3, status = ''open'', generated_timestamp = 70\<rparr>])
      (\<lambda>i. Inr ([] :: nat list))
      [(''ticket_audits'', ''ticket_generated_timestamp'') \<mapsto> 10]
    = Inr (Normal
        \<lparr>ids = [1, 3],
         child_bookmarks = [(''ticket_audits'', ''ticket_generated_timestamp'') \<mapsto> 10],
         children = [],
         fetches = [\<lparr>ticket_id = 1, status = ''open'', generated_timestamp = 50\<rparr>,
                    \<lparr>ticket_id = 3, status = ''open'', generated_timestamp = 70\<rparr>],
         warnings = 0\<rparr>)
   \<and> ticket_comments_sync
      (\<lambda>b. [\<lparr>ticket_id = 1, status = ''open'', generated_timestamp = 50\<rparr>,
             \<lparr>ticket_id = 1, status = ''open'', generated_timestamp = 50\<rparr>])
      (\<lambda>i. Inr ([] :: nat list))
      [(''ticket_comments'', ''ticket_generated_timestamp'') \<mapsto> 10]
    = Inr (Normal
        \<lparr>ids = [1],
         child_bookmarks = [(''ticket_comments'', ''ticket_generated_timestamp'') \<mapsto> 10],
         children = [],
         fetches = [\<lparr>ticket_id = 1, status = ''open'', generated_timestamp = 50\<rparr>],
         warnings = 0\<rparr>)
   \<and> ticket_metrics_sync
      (\<lambda>b. [\<lparr>ticket_id = 1, status = ''open'', generated_timestamp = 50\<rparr>,
             \<lparr>ticket_id = 1, status = ''open'', generated_timestamp = 50\<rparr>])
      (\<lambda>i. Inl FetchError :: error + nat)
      [(''ticket_metrics'', ''ticket_generated_timestamp'') \<mapsto> 10]
    = Inr (Normal
        \<lparr>ids = [1],
         child_bookmarks = [(''ticket_metrics'', ''ticket_generated_timestamp'') \<mapsto> 10],
         children = [],
         fetches = [\<lparr>ticket_id = 1, status = ''open'', generated_timestamp = 50\<rparr>],
         warnings = 1\<rparr>)
   \<and> distinct (map ticket_id
        [\<lparr>ticket_id = 1, status = ''open'', generated_timestamp = 50\<rparr>,
         \<lparr>ticket_id = 3, status = ''open'', generated_timestamp = 70\<rparr>])"
proof -
  have a: "ticket_audits_sync
      (\<lambda>b. [\<lparr>ticket_id = 1, status = ''open'', generated_timestamp = 50\<rparr>,
             \<lparr>ticket_id = 1, status = ''open'', generated_timestamp = 50\<rparr>,
             \<lparr>ticket_id = 3, status = ''deleted'', generated_timestamp = 60\<rparr>,
             \<lparr>ticket_id = 3, status = ''open'', generated_timestamp = 70\<rparr>])
      (\<lambda>i. Inr ([] :: nat list))
      [(''ticket_audits'', ''ticket_generated_timestamp'') \<mapsto> 10]
    = Inr (Normal
        \<lparr>ids = [1, 3],
         child_bookmarks = [(''ticket_audits'', ''ticket_generated_timestamp'') \<mapsto> 10],
         children = [],
         fetches = [\<lparr>ticket_id = 1, status = ''open'', generated_timestamp = 50\<rparr>,
                    \<lparr>ticket_id = 3, status = ''open'', generated_timestamp = 70\<rparr>],
         warnings = 0\<rparr>)"
    by (simp add: ticket_audits_sync_def get_bookmark_def ticket_audits_stream_def
        expansion_init_def)
  have c: "ticket_comments_sync
      (\<lambda>b. [\<lparr>ticket_id = 1, status = ''open'', generated_timestamp = 50\<rparr>,
             \<lparr>ticket_id = 1, status = ''open'', generated_timestamp = 50\<rparr>])
      (\<lambda>i. Inr ([] :: nat list))
      [(''ticket_comments'', ''ticket_generated_timestamp'') \<mapsto> 10]
    = Inr (Normal
        \<lparr>ids = [1],
         child_bookmarks = [(''ticket_comments'', ''ticket_generated_timestamp'') \<mapsto> 10],
         children = [],
         fetches = [\<lparr>ticket_id = 1, status = ''open'', generated_timestamp = 50\<rparr>],
         warnings = 0\<rparr>)"
    by (simp add: ticket_comments_sync_def get_bookmark_def ticket_comments_stream_def
        expansion_init_def)
  have m: "ticket_metrics_sync
      (\<lambda>b. [\<lparr>ticket_id = 1, status = ''open'', generated_timestamp = 50\<rparr>,
             \<lparr>ticket_id = 1, status = ''open'', generated_timestamp = 50\<rparr>])
      (\<lambda>i. Inl FetchError :: error + nat)
      [(''ticket_metrics'', ''ticket_generated_timestamp'') \<mapsto> 10]
    = Inr (Normal
        \<lparr>ids = [1],
         child_bookmarks = [(''ticket_metrics'', ''ticket_generated_timestamp'') \<mapsto> 10],
         children = [],
         fetches = [\<lparr>ticket_id = 1, status = ''open'', generated_timestamp = 50\<rparr>],
         warnings = 1\<rparr>)"
    by (simp add: ticket_metrics_sync_def get_bookmark_def ticket_metrics_stream_def
        expansion_init_def Let_def)
  from child_fetch_at_most_once [OF a c m] a c m show ?thesis by simp
qed

section \<open>Memberships\<close>

lemma membership_without_timestamp:
  assumes "membership_updated_at m = Null \<or> membership_updated_at m = Blank"
  shows "membership_step bookmark m x
           = Normal (if truthy (membership_id m) then x\<lparr>gm_emitted := gm_emitted x @ [m]\<rparr> else x)"
  using assms by (auto simp: membership_step_def without_updated_at_def)

lemma membership_with_timestamp:
  assumes "membership_updated_at m = Stamp u"
    and "get_bookmark group_memberships_stream (gm_bookmarks x) = Inr cur"
  shows "\<exists>x' cur'. membership_step bookmark m x = Normal x'
           \<and> get_bookmark group_memberships_stream (gm_bookmarks x') = Inr cur'
           \<and> gm_emitted x' = gm_emitted x @ (if u \<ge> bookmark then [m] else [])"
proof -
  from update_bookmark_keeps [OF assms(2), of "Some u"]
  obtain st' b' where "update_bookmark group_memberships_stream (gm_bookmarks x) (Some u) = Inr st'"
    "get_bookmark group_memberships_stream st' = Inr b'" by blast
  with assms show ?thesis by (simp add: membership_step_def)
qed

text \<open>
  Claim C10. \<open>GroupMemberships.sync\<close> tests \<open>membership.updated_at\<close> (line 472) and
  \<open>membership.id\<close> (line 480) by truth value, not against \<open>None\<close>. A membership with
  no \<open>updated_at\<close> and the id 0 is skipped, in the branch that logs that it has no id;
  one whose \<open>updated_at\<close> is the empty string is treated as one without \<open>updated_at\<close>,
  and is emitted or skipped by its id alone. With any other id a membership without
  \<open>updated_at\<close> is emitted, and the state is left as it is.
\<close>

theorem membership_with_id_zero_is_skipped:
  "group_memberships_sync [\<lparr>membership_id = Some 0, membership_updated_at = Null\<rparr>]
      [(''group_memberships'', ''updated_at'') \<mapsto> 100]
    = Inr (Normal \<lparr>gm_bookmarks = [(''group_memberships'', ''updated_at'') \<mapsto> 100],
                   gm_emitted = []\<rparr>)
   \<and> group_memberships_sync [\<lparr>membership_id = Some 5, membership_updated_at = Blank\<rparr>]
      [(''group_memberships'', ''updated_at'') \<mapsto> 100]
    = Inr (Normal \<lparr>gm_bookmarks = [(''group_memberships'', ''updated_at'') \<mapsto> 100],
                   gm_emitted = [\<lparr>membership_id = Some 5, membership_updated_at = Blank\<rparr>]\<rparr>)
   \<and> group_memberships_sync [\<lparr>membership_id = None, membership_updated_at = Blank\<rparr>]
      [(''group_memberships'', ''updated_at'') \<mapsto> 100]
    = Inr (Normal \<lparr>gm_bookmarks = [(''group_memberships'', ''updated_at'') \<mapsto> 100],
                   gm_emitted = []\<rparr>)
   \<and> group_memberships_sync [\<lparr>membership_id = Some 5, membership_updated_at = Null\<rparr>]
      [(''group_memberships'', ''updated_at'') \<mapsto> 100]
    = Inr (Normal \<lparr>gm_bookmarks = [(''group_memberships'', ''updated_at'') \<mapsto> 100],
                   gm_emitted = [\<lparr>membership_id = Some 5, membership_updated_at = Null\<rparr>]\<rparr>)"
  by (simp add: group_memberships_sync_def get_bookmark_def group_memberships_stream_def
      membership_step_def without_updated_at_def truthy_def)

end
